theory Spec2Isabelle
  imports Main "HOL-Library.AList" "HOL-Library.Multiset"
begin

section \<open>Data model of pkb.py\<close>

text \<open>
  Python exceptions. \<open>Exception m\<close> stands for any instance of \<^verbatim>\<open>Exception\<close>;
  \<open>KeyboardInterrupt\<close> and \<open>SystemExit\<close> derive from \<^verbatim>\<open>BaseException\<close> only, so
  an \<^verbatim>\<open>except Exception:\<close> clause does not catch them.
\<close>

datatype exn = Exception string | KeyboardInterrupt | SystemExit | ValueError

fun is_Exception :: "exn \<Rightarrow> bool" where
  "is_Exception (Exception m) = True"
| "is_Exception ValueError = True"
| "is_Exception KeyboardInterrupt = False"
| "is_Exception SystemExit = False"

text \<open>
  Modelled from the spec: the module \<^verbatim>\<open>stages\<close> is not part of the sources; the five
  stages and their fixed order (\<^verbatim>\<open>stages.STAGES\<close>) are the ones the specification names.
\<close>

datatype stage = PROVISION | PREPARE | RUN | CLEANUP | TEARDOWN

definition STAGES :: "stage list" where
  "STAGES = [PROVISION, PREPARE, RUN, CLEANUP, TEARDOWN]"

text \<open>
  Modelled from the spec: the module \<^verbatim>\<open>benchmark_status\<close> is not part of the sources;
  the specification lists the lifecycle statuses not-started, running, succeeded and
  failed. pkb.py itself only ever writes \<open>FAILED\<close> and \<open>SUCCEEDED\<close>.
\<close>

datatype benchmark_status = NOT_STARTED | RUNNING | SUCCEEDED | FAILED

text \<open>
  A Python dictionary with string keys is kept as an association list with one entry per
  key, read with \<open>map_of\<close> and written with \<open>AList.update\<close>. The value of a
  sample is a number that pkb.py passes on and never computes with.
\<close>

datatype meta_value = MInt int | MStr string

record sample =
  metric :: string
  sample_value :: int
  sample_unit :: string
  metadata :: "(string \<times> meta_value) list"

record vm =
  is_static :: bool

record benchmark_spec =
  name :: string
  uid :: string
  sequence_number :: int
  total_benchmarks :: int
  status :: benchmark_status
  always_call_cleanup :: bool
  vms :: "vm list"
  config_flags :: "(string \<times> string) list"
  resources :: "string list"

text \<open>The command-line flags that the orchestration code reads.\<close>

record flags =
  run_stage :: "stage list"
  run_stage_time :: int
  run_stage_retries :: int
  boot_samples :: bool
  publish_after_run :: bool
  run_processes :: int
  run_uri :: string
  owner :: string
  stop_after_benchmark_failure :: bool
  archive_bucket :: "string option"
  end_to_end_runtime_measurement_enabled :: bool
  runtime_measurements_enabled :: bool

text \<open>
  Calls that leave pkb.py: operations of the benchmark spec, notifications on the event
  bus, the sample collector, and helpers of other modules. Each one may raise.
\<close>

datatype call =
    ConstructSparkService | ConstructDpbService | ConstructVirtualMachines
  | Pickle | benchmark_start | Provision
  | Prepare | BenchmarkPrepare | StartBackgroundWorkload
  | before_phase_RUN | BenchmarkRun | GetTimeToBoot | after_phase_RUN
  | samples_created "sample list" | AddSamples "sample list" | PublishSamples
  | StopBackgroundWorkload | BenchmarkCleanup
  | Delete | benchmark_end
  | ArchiveRun

text \<open>An event is a call made on behalf of the spec with the given uid.\<close>

type_synonym event = "string \<times> call"

text \<open>
  The part of the process state that pkb.py shares between benchmark runs: the record of
  the external calls made so far (oldest first), the module-level
  \<^verbatim>\<open>_TEARDOWN_EVENT\<close>, and the checkpoint store written by \<^verbatim>\<open>spec.Pickle()\<close>.
\<close>

record world =
  trace :: "event list"
  TEARDOWN_EVENT :: bool
  snapshots :: "string \<rightharpoonup> benchmark_spec"

text \<open>
  The collaborators of pkb.py, as deterministic functions of the history of calls:
  whether a call raises, what a successful \<^verbatim>\<open>BenchmarkRun\<close> or
  \<^verbatim>\<open>GetTimeToBoot\<close> returns, which resource identifiers a \<^verbatim>\<open>Provision\<close>
  call obtains (also when it raises part-way), what the clock reads, the samples of the
  two interval timers, the flag values in force inside
  \<^verbatim>\<open>spec.RedirectGlobalFlags()\<close>, and the order in which the worker pool completes
  the tasks submitted to it.
\<close>

record env =
  outcome :: "event list \<Rightarrow> event \<Rightarrow> exn option"
  BenchmarkRun_samples :: "event list \<Rightarrow> string \<Rightarrow> sample list"
  GetTimeToBoot_samples :: "event list \<Rightarrow> string \<Rightarrow> sample list"
  Provision_resources :: "event list \<Rightarrow> string \<Rightarrow> string list"
  time_time :: "event list \<Rightarrow> int"
  end_to_end_timer_samples :: "event list \<Rightarrow> string \<Rightarrow> sample list"
  detailed_timer_samples :: "event list \<Rightarrow> string \<Rightarrow> sample list"
  RedirectGlobalFlags :: "benchmark_spec \<Rightarrow> flags \<Rightarrow> flags"
  completion_order :: "benchmark_spec list \<Rightarrow> benchmark_spec list"

text \<open>
  The state one benchmark task works on: its spec object, the samples of its collector,
  and the shared world.
\<close>

record state =
  spec :: benchmark_spec
  samples :: "sample list"
  world :: world

section \<open>External calls\<close>

text \<open>
  An external call is recorded in the trace whether it returns or raises. The result is
  the exception raised, if any, and the new state.
\<close>

definition ext :: "env \<Rightarrow> call \<Rightarrow> state \<Rightarrow> exn option \<times> state" where
  "ext env c st =
     (let w = world st; ev = (uid (spec st), c)
      in (outcome env (trace w) ev, st\<lparr>world := w\<lparr>trace := trace w @ [ev]\<rparr>\<rparr>))"

text \<open>Sequential composition: the second computation runs only if the first returned.\<close>

definition seq :: "(state \<Rightarrow> exn option \<times> state) \<Rightarrow> (state \<Rightarrow> exn option \<times> state)
    \<Rightarrow> state \<Rightarrow> exn option \<times> state" where
  "seq f g st = (case f st of (Some e, st') \<Rightarrow> (Some e, st') | (None, st') \<Rightarrow> g st')"

text \<open>
  \<^verbatim>\<open>try: f finally: g\<close>: g always runs; an exception raised by g replaces the one
  pending from f.
\<close>

definition try_finally :: "(state \<Rightarrow> exn option \<times> state) \<Rightarrow> (state \<Rightarrow> exn option \<times> state)
    \<Rightarrow> state \<Rightarrow> exn option \<times> state" where
  "try_finally f g st =
     (case f st of (r, st') \<Rightarrow>
        (case g st' of (Some e, st'') \<Rightarrow> (Some e, st'') | (None, st'') \<Rightarrow> (r, st'')))"

definition skip :: "state \<Rightarrow> exn option \<times> state" where
  "skip st = (None, st)"

text \<open>
  Modelled from the spec: \<^verbatim>\<open>BenchmarkSpec.Pickle\<close> is not part of the sources. Saving
  overwrites the snapshot kept for the spec; a save that raises writes nothing.
\<close>

definition spec_Pickle :: "env \<Rightarrow> state \<Rightarrow> exn option \<times> state" where
  "spec_Pickle env st =
     (case ext env Pickle st of
        (Some e, st') \<Rightarrow> (Some e, st')
      | (None, st') \<Rightarrow>
          (None, st'\<lparr>world := (world st')\<lparr>snapshots :=
                     (snapshots (world st'))(uid (spec st') \<mapsto> spec st')\<rparr>\<rparr>))"

text \<open>
  Modelled from the spec: \<^verbatim>\<open>BenchmarkSpec.Provision\<close> is not part of the sources. The
  resource identifiers it obtains are added to the spec's handles, also when it raises
  after obtaining some of them.
\<close>

definition spec_Provision :: "env \<Rightarrow> state \<Rightarrow> exn option \<times> state" where
  "spec_Provision env st =
     (case ext env Provision st of
        (r, st') \<Rightarrow>
          (r, st'\<lparr>spec := (spec st')\<lparr>resources :=
                 resources (spec st') @ Provision_resources env (trace (world st)) (uid (spec st))\<rparr>\<rparr>))"

text \<open>
  Modelled from the spec: \<^verbatim>\<open>SampleCollector.AddSamples\<close> is not part of the sources. It
  appends the samples, attaching the batch metadata (owner, run identifier) to each
  sample that does not carry it yet.
\<close>

definition setdefault :: "string \<Rightarrow> 'v \<Rightarrow> (string \<times> 'v) list \<Rightarrow> (string \<times> 'v) list" where
  "setdefault k v m = (if map_of m k = None then AList.update k v m else m)"

definition attach_batch_metadata :: "flags \<Rightarrow> sample \<Rightarrow> sample" where
  "attach_batch_metadata F s =
     s\<lparr>metadata := setdefault ''run_uri'' (MStr (run_uri F))
                    (setdefault ''owner'' (MStr (owner F)) (metadata s))\<rparr>"

definition collector_AddSamples :: "flags \<Rightarrow> env \<Rightarrow> sample list \<Rightarrow> state \<Rightarrow> exn option \<times> state" where
  "collector_AddSamples F env xs st =
     (case ext env (AddSamples xs) st of
        (Some e, st') \<Rightarrow> (Some e, st')
      | (None, st') \<Rightarrow> (None, st'\<lparr>samples := samples st' @ map (attach_batch_metadata F) xs\<rparr>))"

section \<open>The phases\<close>

text \<open>\<^verbatim>\<open>DoProvisionPhase\<close> (the interval timer only measures, it is left out).\<close>

definition DoProvisionPhase :: "env \<Rightarrow> state \<Rightarrow> exn option \<times> state" where
  "DoProvisionPhase env =
     seq (ext env ConstructSparkService)
    (seq (ext env ConstructDpbService)
    (seq (ext env ConstructVirtualMachines)
    (seq (spec_Pickle env)
    (seq (ext env benchmark_start)
         (try_finally (spec_Provision env) (spec_Pickle env))))))"

text \<open>\<^verbatim>\<open>DoPreparePhase\<close>.\<close>

definition DoPreparePhase :: "env \<Rightarrow> state \<Rightarrow> exn option \<times> state" where
  "DoPreparePhase env =
     seq (ext env Prepare)
    (seq (ext env BenchmarkPrepare)
         (ext env StartBackgroundWorkload))"

text \<open>
  The name of the cluster boot benchmark, \<^verbatim>\<open>cluster_boot_benchmark.BENCHMARK_NAME\<close>,
  a constant of a module that is not part of the sources.
\<close>

definition cluster_boot_BENCHMARK_NAME :: string where
  "cluster_boot_BENCHMARK_NAME = ''cluster_boot''"

text \<open>
  The body of the \<^verbatim>\<open>try\<close> in the run loop: the exception raised (if any), the value
  of the variable \<^verbatim>\<open>samples\<close> afterwards, and the new state. When
  \<^verbatim>\<open>BenchmarkRun\<close> raises, \<^verbatim>\<open>samples\<close> is still the empty list; when the boot
  samples cannot be obtained, it holds what \<^verbatim>\<open>BenchmarkRun\<close> returned.
\<close>

definition run_try_body :: "flags \<Rightarrow> env \<Rightarrow> state \<Rightarrow> exn option \<times> sample list \<times> state" where
  "run_try_body F env st =
     (case ext env BenchmarkRun st of
        (Some e, st1) \<Rightarrow> (Some e, [], st1)
      | (None, st1) \<Rightarrow>
          (let xs = BenchmarkRun_samples env (trace (world st)) (uid (spec st))
           in if boot_samples F \<or> name (spec st) = cluster_boot_BENCHMARK_NAME
              then (case ext env GetTimeToBoot st1 of
                      (Some e, st2) \<Rightarrow> (Some e, xs, st2)
                    | (None, st2) \<Rightarrow>
                        (None, xs @ GetTimeToBoot_samples env (trace (world st1)) (uid (spec st)), st2))
              else (None, xs, st1)))"

text \<open>Lines 443 to 445: the tag is written when \<^verbatim>\<open>FLAGS.run_stage_time\<close> is truthy.\<close>

definition tag_run_number :: "flags \<Rightarrow> int \<Rightarrow> sample list \<Rightarrow> sample list" where
  "tag_run_number F run_number xs =
     (if run_stage_time F \<noteq> 0
      then map (\<lambda>s. s\<lparr>metadata := AList.update ''run_number'' (MInt run_number) (metadata s)\<rparr>) xs
      else xs)"

text \<open>
  Lines 431 to 438, the \<^verbatim>\<open>except Exception:\<close> and \<^verbatim>\<open>else:\<close> clauses: given the
  outcome r of the \<^verbatim>\<open>try\<close> body, the exception left pending (if any) and the new
  value of \<^verbatim>\<open>consecutive_failures\<close>.
\<close>

definition run_except :: "flags \<Rightarrow> int \<Rightarrow> exn option \<Rightarrow> exn option \<times> int" where
  "run_except F consecutive_failures r =
     (case r of
        None \<Rightarrow> (None, 0)
      | Some e \<Rightarrow>
          if is_Exception e
          then (if consecutive_failures + 1 > run_stage_retries F
                then (Some e, consecutive_failures + 1)
                else (None, consecutive_failures + 1))
          else (Some e, consecutive_failures))"

text \<open>Lines 441 to 448: what is done with the samples of one iteration.\<close>

definition after_run :: "flags \<Rightarrow> env \<Rightarrow> int \<Rightarrow> sample list \<Rightarrow> state \<Rightarrow> exn option \<times> state" where
  "after_run F env run_number xs =
     seq (ext env (samples_created xs))
    (seq (collector_AddSamples F env (tag_run_number F run_number xs))
         (if publish_after_run F then ext env PublishSamples else skip))"

text \<open>
  One iteration of the \<^verbatim>\<open>while True\<close> loop of \<^verbatim>\<open>DoRunPhase\<close>, up to the
  increment of \<^verbatim>\<open>run_number\<close>. It either raises, or hands the new value of
  \<^verbatim>\<open>consecutive_failures\<close> to the deadline test. The \<^verbatim>\<open>finally:\<close> clause sends
  the after-phase notification whatever happened before.
\<close>

datatype iteration = Raise exn | Next int

definition run_iteration :: "flags \<Rightarrow> env \<Rightarrow> int \<Rightarrow> int \<Rightarrow> state \<Rightarrow> iteration \<times> state" where
  "run_iteration F env run_number consecutive_failures st =
     (case ext env before_phase_RUN st of
        (Some e, st1) \<Rightarrow> (Raise e, st1)
      | (None, st1) \<Rightarrow>
          (case run_try_body F env st1 of (r, xs, st2) \<Rightarrow>
            (case run_except F consecutive_failures r of (pending, cf) \<Rightarrow>
              (case ext env after_phase_RUN st2 of
                 (Some e, st3) \<Rightarrow> (Raise e, st3)
               | (None, st3) \<Rightarrow>
                   (case pending of
                      Some e \<Rightarrow> (Raise e, st3)
                    | None \<Rightarrow>
                        (case after_run F env run_number xs st3 of
                           (Some e, st4) \<Rightarrow> (Raise e, st4)
                         | (None, st4) \<Rightarrow> (Next cf, st4)))))))"

text \<open>
  The loop. It ends when the clock has passed the deadline, and nothing bounds the number
  of iterations, so the model counts them down from a supply: \<open>None\<close> means the supply
  ran out before the loop ended.
\<close>

fun run_loop :: "nat \<Rightarrow> flags \<Rightarrow> env \<Rightarrow> int \<Rightarrow> int \<Rightarrow> int \<Rightarrow> state \<Rightarrow> (exn option \<times> state) option" where
  "run_loop 0 F env deadline run_number consecutive_failures st = None"
| "run_loop (Suc n) F env deadline run_number consecutive_failures st =
     (case run_iteration F env run_number consecutive_failures st of
        (Raise e, st') \<Rightarrow> Some (Some e, st')
      | (Next cf, st') \<Rightarrow>
          if time_time env (trace (world st')) > deadline then Some (None, st')
          else run_loop n F env deadline (run_number + 1) cf st')"

definition DoRunPhase :: "nat \<Rightarrow> flags \<Rightarrow> env \<Rightarrow> state \<Rightarrow> (exn option \<times> state) option" where
  "DoRunPhase n F env st =
     run_loop n F env (time_time env (trace (world st)) + run_stage_time F) 0 0 st"

text \<open>\<^verbatim>\<open>DoCleanupPhase\<close>.\<close>

definition DoCleanupPhase :: "env \<Rightarrow> state \<Rightarrow> exn option \<times> state" where
  "DoCleanupPhase env st =
     (if always_call_cleanup (spec st) \<or> (\<exists>v \<in> set (vms (spec st)). is_static v)
      then seq (ext env StopBackgroundWorkload) (ext env BenchmarkCleanup) st
      else (None, st))"

text \<open>\<^verbatim>\<open>DoTeardownPhase\<close>.\<close>

definition DoTeardownPhase :: "env \<Rightarrow> state \<Rightarrow> exn option \<times> state" where
  "DoTeardownPhase env = ext env Delete"

section \<open>Running one benchmark\<close>

text \<open>
  Modelled from the spec: the module \<^verbatim>\<open>abort\<close> is not part of the sources. The
  specification knows one batch-wide abort flag, set by a worker and read both before a
  spec starts and before teardown; \<^verbatim>\<open>abort.IsAborted()\<close> is therefore taken to read
  the flag that \<^verbatim>\<open>RunBenchmarkTask\<close> sets.
\<close>

definition abort_IsAborted :: "world \<Rightarrow> bool" where
  "abort_IsAborted w = TEARDOWN_EVENT w"

text \<open>Computations that may run the loop carry the iteration supply.\<close>

definition seq_o :: "(state \<Rightarrow> (exn option \<times> state) option) \<Rightarrow> (state \<Rightarrow> (exn option \<times> state) option)
    \<Rightarrow> state \<Rightarrow> (exn option \<times> state) option" where
  "seq_o f g st =
     (case f st of None \<Rightarrow> None | Some (Some e, st') \<Rightarrow> Some (Some e, st') | Some (None, st') \<Rightarrow> g st')"

text \<open>
  \<open>requested n F env s\<close> is one of the five statements
  \<^verbatim>\<open>if stages.S in FLAGS.run_stage: DoSPhase(...)\<close> of \<^verbatim>\<open>RunBenchmark\<close>.
\<close>

fun DoPhase :: "nat \<Rightarrow> flags \<Rightarrow> env \<Rightarrow> stage \<Rightarrow> state \<Rightarrow> (exn option \<times> state) option" where
  "DoPhase n F env PROVISION st = Some (DoProvisionPhase env st)"
| "DoPhase n F env PREPARE st = Some (DoPreparePhase env st)"
| "DoPhase n F env RUN st = DoRunPhase n F env st"
| "DoPhase n F env CLEANUP st = Some (DoCleanupPhase env st)"
| "DoPhase n F env TEARDOWN st = Some (DoTeardownPhase env st)"

definition requested :: "nat \<Rightarrow> flags \<Rightarrow> env \<Rightarrow> stage \<Rightarrow> state \<Rightarrow> (exn option \<times> state) option" where
  "requested n F env s st =
     (if s \<in> set (run_stage F) then DoPhase n F env s st else Some (None, st))"

text \<open>The timing samples added at the end of the \<^verbatim>\<open>try\<close> block.\<close>

definition add_timing_samples :: "flags \<Rightarrow> env \<Rightarrow> state \<Rightarrow> exn option \<times> state" where
  "add_timing_samples F env =
     seq (\<lambda>st. if run_stage F = STAGES \<and> end_to_end_runtime_measurement_enabled F
               then collector_AddSamples F env
                      (end_to_end_timer_samples env (trace (world st)) (uid (spec st))) st
               else (None, st))
         (\<lambda>st. if runtime_measurements_enabled F
               then collector_AddSamples F env
                      (detailed_timer_samples env (trace (world st)) (uid (spec st))) st
               else (None, st))"

text \<open>The \<^verbatim>\<open>try\<close> block of \<^verbatim>\<open>RunBenchmark\<close>.\<close>

definition RunBenchmark_try :: "nat \<Rightarrow> flags \<Rightarrow> env \<Rightarrow> state \<Rightarrow> (exn option \<times> state) option" where
  "RunBenchmark_try n F env =
     seq_o (requested n F env PROVISION)
    (seq_o (requested n F env PREPARE)
    (seq_o (requested n F env RUN)
    (seq_o (requested n F env CLEANUP)
    (seq_o (requested n F env TEARDOWN)
           (\<lambda>st. Some (add_timing_samples F env st))))))"

text \<open>
  The \<^verbatim>\<open>except:\<close> clause, entered with the exception e: it may run the cleanup phase
  and ends with a bare \<^verbatim>\<open>raise\<close>. There is no handler around the cleanup phase, so an
  exception raised there leaves the clause in place of e.
\<close>

definition RunBenchmark_except :: "flags \<Rightarrow> env \<Rightarrow> exn \<Rightarrow> state \<Rightarrow> exn option \<times> state" where
  "RunBenchmark_except F env e st =
     (if CLEANUP \<in> set (run_stage F) \<and> always_call_cleanup (spec st)
      then (case DoCleanupPhase env st of
              (Some e', st') \<Rightarrow> (Some e', st')
            | (None, st') \<Rightarrow> (Some e, st'))
      else (Some e, st))"

text \<open>The \<^verbatim>\<open>try\<close> block followed by the \<^verbatim>\<open>except:\<close> clause.\<close>

definition RunBenchmark_try_except :: "nat \<Rightarrow> flags \<Rightarrow> env \<Rightarrow> state \<Rightarrow> (exn option \<times> state) option" where
  "RunBenchmark_try_except n F env st =
     (case RunBenchmark_try n F env st of
        None \<Rightarrow> None
      | Some (None, st1) \<Rightarrow> Some (None, st1)
      | Some (Some e, st1) \<Rightarrow> Some (RunBenchmark_except F env e st1))"

text \<open>The \<^verbatim>\<open>finally:\<close> clause.\<close>

definition RunBenchmark_finally :: "flags \<Rightarrow> env \<Rightarrow> state \<Rightarrow> exn option \<times> state" where
  "RunBenchmark_finally F env =
     seq (\<lambda>st. if TEARDOWN \<in> set (run_stage F) \<and> \<not> abort_IsAborted (world st)
               then ext env Delete st else (None, st))
    (seq (ext env benchmark_end)
         (spec_Pickle env))"

text \<open>Line 492, the first statement of \<^verbatim>\<open>RunBenchmark\<close>, and line 544, its last.\<close>

definition mark_failed :: "state \<Rightarrow> state" where
  "mark_failed st = st\<lparr>spec := (spec st)\<lparr>status := FAILED\<rparr>\<rparr>"

definition mark_succeeded :: "state \<Rightarrow> state" where
  "mark_succeeded st = st\<lparr>spec := (spec st)\<lparr>status := SUCCEEDED\<rparr>\<rparr>"

text \<open>The flag values in force inside \<^verbatim>\<open>with spec.RedirectGlobalFlags():\<close>.\<close>

definition redirected :: "flags \<Rightarrow> env \<Rightarrow> state \<Rightarrow> flags" where
  "redirected FLAGS env st = RedirectGlobalFlags env (spec st) FLAGS"

text \<open>
  \<^verbatim>\<open>RunBenchmark\<close>. The last assignment is reached only when nothing is pending after
  the \<^verbatim>\<open>finally:\<close> clause.
\<close>

definition RunBenchmark :: "nat \<Rightarrow> flags \<Rightarrow> env \<Rightarrow> state \<Rightarrow> (exn option \<times> state) option" where
  "RunBenchmark n FLAGS env st =
     (let st0 = mark_failed st;
          F = redirected FLAGS env st0
      in case RunBenchmark_try_except n F env st0 of
           None \<Rightarrow> None
         | Some (r, st2) \<Rightarrow>
             (case RunBenchmark_finally F env st2 of
                (Some e, st3) \<Rightarrow> Some (Some e, st3)
              | (None, st3) \<Rightarrow>
                  (case r of
                     Some e \<Rightarrow> Some (Some e, st3)
                   | None \<Rightarrow> Some (None, mark_succeeded st3))))"

section \<open>The task run by a worker\<close>

text \<open>Python's \<^verbatim>\<open>str\<close> on an integer: decimal digits, with a minus sign when negative.\<close>

definition digit_char :: "nat \<Rightarrow> char" where
  "digit_char d = char_of (48 + d)"

fun str_nat :: "nat \<Rightarrow> string" where
  "str_nat n = (if n < 10 then [digit_char n] else str_nat (n div 10) @ [digit_char (n mod 10)])"

declare str_nat.simps [simp del]

definition str :: "int \<Rightarrow> string" where
  "str i = (if i < 0 then CHR ''-'' # str_nat (nat (- i)) else str_nat (nat i))"

text \<open>
  Lines 564 and 565: with more than one worker process, the run identifier in the spec's
  own flag values gets the sequence number appended.
\<close>

definition task_spec :: "flags \<Rightarrow> benchmark_spec \<Rightarrow> benchmark_spec" where
  "task_spec FLAGS s =
     (if run_processes FLAGS > 1
      then s\<lparr>config_flags := AList.update ''run_uri''
               (run_uri FLAGS @ str (sequence_number s)) (config_flags s)\<rparr>
      else s)"

text \<open>
  \<^verbatim>\<open>RunBenchmarkTask\<close>. Every exception of the model is a \<^verbatim>\<open>BaseException\<close>, so
  the \<^verbatim>\<open>except\<close> clause catches whatever \<^verbatim>\<open>RunBenchmark\<close> raises, and the
  \<^verbatim>\<open>finally:\<close> clause returns. The result is \<open>Inl e\<close> if the task raises e and
  \<open>Inr\<close> of the returned pair otherwise.
\<close>

definition RunBenchmarkTask :: "nat \<Rightarrow> flags \<Rightarrow> env \<Rightarrow> benchmark_spec \<Rightarrow> world
    \<Rightarrow> ((exn + benchmark_spec \<times> sample list) \<times> world) option" where
  "RunBenchmarkTask n FLAGS env s w =
     (if TEARDOWN_EVENT w then Some (Inr (s, []), w)
      else
        (case RunBenchmark n FLAGS env \<lparr>spec = task_spec FLAGS s, samples = [], world = w\<rparr> of
           None \<Rightarrow> None
         | Some (r, st) \<Rightarrow>
             (let w' = (case r of
                          None \<Rightarrow> world st
                        | Some e \<Rightarrow>
                            if e = KeyboardInterrupt \<or> stop_after_benchmark_failure FLAGS
                            then (world st)\<lparr>TEARDOWN_EVENT := True\<rparr>
                            else world st)
              in Some (Inr (spec st, samples st), w'))))"

section \<open>The batch\<close>

text \<open>
  Modelled from the spec: \<^verbatim>\<open>background_tasks.RunParallelProcesses\<close> is not part of the
  sources. It returns one result per task, in the order in which the tasks complete, which
  need not be the order in which they were submitted. The model runs the tasks one at a
  time, in the order of completion that the environment fixes, and returns the results in
  that order. A task that raises ends the batch with that exception.
\<close>

fun run_tasks :: "nat \<Rightarrow> flags \<Rightarrow> env \<Rightarrow> benchmark_spec list \<Rightarrow> world
    \<Rightarrow> ((exn + (benchmark_spec \<times> sample list) list) \<times> world) option" where
  "run_tasks n FLAGS env [] w = Some (Inr [], w)"
| "run_tasks n FLAGS env (s # ss) w =
     (case RunBenchmarkTask n FLAGS env s w of
        None \<Rightarrow> None
      | Some (Inl e, w1) \<Rightarrow> Some (Inl e, w1)
      | Some (Inr p, w1) \<Rightarrow>
          (case run_tasks n FLAGS env ss w1 of
             None \<Rightarrow> None
           | Some (Inl e, w2) \<Rightarrow> Some (Inl e, w2)
           | Some (Inr ps, w2) \<Rightarrow> Some (Inr (p # ps), w2)))"

definition RunParallelProcesses :: "nat \<Rightarrow> flags \<Rightarrow> env \<Rightarrow> benchmark_spec list \<Rightarrow> world
    \<Rightarrow> ((exn + (benchmark_spec \<times> sample list) list) \<times> world) option" where
  "RunParallelProcesses n FLAGS env ss w = run_tasks n FLAGS env (completion_order env ss) w"

text \<open>A call made for the batch as a whole is recorded under the empty uid.\<close>

definition ext_batch :: "env \<Rightarrow> call \<Rightarrow> world \<Rightarrow> exn option \<times> world" where
  "ext_batch env c w = (outcome env (trace w) ([], c), w\<lparr>trace := trace w @ [([], c)]\<rparr>)"

text \<open>Lines 683 to 685 of \<^verbatim>\<open>RunBenchmarks\<close>.\<close>

definition exit_status :: "benchmark_spec list \<Rightarrow> int" where
  "exit_status benchmark_specs =
     (if list_all (\<lambda>s. status s = SUCCEEDED) benchmark_specs then 0 else 1)"

text \<open>
  \<^verbatim>\<open>RunBenchmarks\<close>, given the specs that \<^verbatim>\<open>_CreateBenchmarkSpecs\<close> built. Unpacking
  the transposed list of result tuples (line 660) into two names raises \<^verbatim>\<open>ValueError\<close> when there is
  no tuple. The \<^verbatim>\<open>finally:\<close> clause publishes when the collector holds a sample.
  The run is archived when \<^verbatim>\<open>FLAGS.archive_bucket\<close> is truthy, that is, neither
  \<^verbatim>\<open>None\<close> nor the empty string.
\<close>

definition RunBenchmarks :: "nat \<Rightarrow> flags \<Rightarrow> env \<Rightarrow> benchmark_spec list \<Rightarrow> world
    \<Rightarrow> ((exn + int) \<times> world) option" where
  "RunBenchmarks n FLAGS env benchmark_specs w =
     (case RunParallelProcesses n FLAGS env benchmark_specs w of
        None \<Rightarrow> None
      | Some (r, w1) \<Rightarrow>
          (let (pending, specs', collected) =
                 (case r of
                    Inl e \<Rightarrow> (Some e, benchmark_specs, [])
                  | Inr tuples \<Rightarrow>
                      if tuples = [] then (Some ValueError, benchmark_specs, [])
                      else (None, map fst tuples, concat (map snd tuples)));
               (rf, w2) = (if collected \<noteq> [] then ext_batch env PublishSamples w1 else (None, w1))
           in case rf of
                Some e \<Rightarrow> Some (Inl e, w2)
              | None \<Rightarrow>
                  (case pending of
                     Some e \<Rightarrow> Some (Inl e, w2)
                   | None \<Rightarrow>
                       (case (if archive_bucket FLAGS \<noteq> None \<and> archive_bucket FLAGS \<noteq> Some []
                              then ext_batch env ArchiveRun w2
                              else (None, w2)) of
                          (Some e, w3) \<Rightarrow> Some (Inl e, w3)
                        | (None, w3) \<Rightarrow> Some (Inr (exit_status specs'), w3)))))"

section \<open>Notions used in the statements\<close>

text \<open>
  From one state of a task to a later one, the spec changes at most in its resource
  handles, the abort flag is as it was, and the trace has only grown.
\<close>

definition frame :: "state \<Rightarrow> state \<Rightarrow> bool" where
  "frame st st' \<longleftrightarrow>
     (\<exists>rs. spec st' = (spec st)\<lparr>resources := rs\<rparr>) \<and>
     TEARDOWN_EVENT (world st') = TEARDOWN_EVENT (world st) \<and>
     (\<exists>es. trace (world st') = trace (world st) @ es)"

definition framed :: "(state \<Rightarrow> 'r \<times> state) \<Rightarrow> bool" where
  "framed f \<longleftrightarrow> (\<forall>st. frame st (snd (f st)))"

definition framed_o :: "(state \<Rightarrow> ('r \<times> state) option) \<Rightarrow> bool" where
  "framed_o f \<longleftrightarrow> (\<forall>st r st'. f st = Some (r, st') \<longrightarrow> frame st st')"

text \<open>Concrete inputs on which the statements are exercised.\<close>

definition example_flags :: flags where
  "example_flags =
     \<lparr>run_stage = STAGES, run_stage_time = 0, run_stage_retries = 0, boot_samples = False,
      publish_after_run = False, run_processes = 1, run_uri = ''a1b2c3d4'', owner = ''perfkit'',
      stop_after_benchmark_failure = False, archive_bucket = None,
      end_to_end_runtime_measurement_enabled = False, runtime_measurements_enabled = False\<rparr>"

definition example_sample :: sample where
  "example_sample =
     \<lparr>metric = ''Throughput'', sample_value = 42, sample_unit = ''Mbits/sec'', metadata = []\<rparr>"

text \<open>
  An environment in which no call raises, every run yields one sample, and the clock
  advances by one tick with every call.
\<close>

definition quiet_env :: env where
  "quiet_env =
     \<lparr>outcome = (\<lambda>t ev. None),
      BenchmarkRun_samples = (\<lambda>t u. [example_sample]),
      GetTimeToBoot_samples = (\<lambda>t u. []),
      Provision_resources = (\<lambda>t u. [''vm-0'']),
      time_time = (\<lambda>t. int (length t)),
      end_to_end_timer_samples = (\<lambda>t u. []),
      detailed_timer_samples = (\<lambda>t u. []),
      RedirectGlobalFlags = (\<lambda>s F. F),
      completion_order = (\<lambda>ss. ss)\<rparr>"

definition example_spec :: benchmark_spec where
  "example_spec =
     \<lparr>name = ''iperf'', uid = ''iperf0'', sequence_number = 1, total_benchmarks = 1,
      status = NOT_STARTED, always_call_cleanup = False, vms = [], config_flags = [],
      resources = []\<rparr>"

definition example_world :: world where
  "example_world = \<lparr>trace = [], TEARDOWN_EVENT = False, snapshots = Map.empty\<rparr>"

definition example_state :: state where
  "example_state = \<lparr>spec = example_spec, samples = [], world = example_world\<rparr>"

text \<open>Provisioning fails; the cleanup hook of the benchmark works.\<close>

definition provision_fails_env :: env where
  "provision_fails_env =
     quiet_env\<lparr>outcome := (\<lambda>t ev. if snd ev = Provision then Some (Exception ''provision failed'')
                                   else None)\<rparr>"

text \<open>Provisioning fails, and so does the cleanup hook of the benchmark.\<close>

definition cleanup_fails_env :: env where
  "cleanup_fails_env =
     quiet_env\<lparr>outcome := (\<lambda>t ev. if snd ev = Provision then Some (Exception ''provision failed'')
                                   else if snd ev = BenchmarkCleanup then Some (Exception ''cleanup failed'')
                                   else None)\<rparr>"

definition cleanup_state :: state where
  "cleanup_state = example_state\<lparr>spec := example_spec\<lparr>always_call_cleanup := True\<rparr>\<rparr>"

definition run_fails_env :: env where
  "run_fails_env =
     quiet_env\<lparr>outcome := (\<lambda>t ev. if snd ev = BenchmarkRun then Some (Exception ''run failed'')
                                   else None)\<rparr>"

definition stop_flags :: flags where
  "stop_flags = example_flags\<lparr>stop_after_benchmark_failure := True\<rparr>"

text \<open>A second spec, and an environment in which only its run fails.\<close>

definition second_spec :: benchmark_spec where
  "second_spec = example_spec\<lparr>name := ''fio'', uid := ''fio0'', sequence_number := 2\<rparr>"

definition fio_fails_env :: env where
  "fio_fails_env =
     quiet_env\<lparr>outcome := (\<lambda>t ev. if ev = (''fio0'', BenchmarkRun) then Some (Exception ''run failed'')
                                   else None)\<rparr>"



text \<open>
  The sample lists announced on the event bus (\<^verbatim>\<open>samples_created\<close>) and the sample
  lists handed to the collector (\<^verbatim>\<open>AddSamples\<close>), in the order of the calls.
\<close>

definition created_batches :: "event list \<Rightarrow> sample list list" where
  "created_batches t =
     concat (map (\<lambda>ev. case snd ev of samples_created xs \<Rightarrow> [xs] | _ \<Rightarrow> []) t)"

definition added_batches :: "event list \<Rightarrow> sample list list" where
  "added_batches t =
     concat (map (\<lambda>ev. case snd ev of AddSamples xs \<Rightarrow> [xs] | _ \<Rightarrow> []) t)"

text \<open>
  The k-th list handed to the collector is the k-th list announced, tagged by the
  iteration that started with \<^verbatim>\<open>run_number\<close> rn + k.
\<close>

definition tagged :: "flags \<Rightarrow> int \<Rightarrow> sample list list \<Rightarrow> sample list list \<Rightarrow> bool" where
  "tagged F rn added created \<longleftrightarrow>
     length added \<le> length created \<and>
     (\<forall>k < length added. added ! k = tag_run_number F (rn + int k) (created ! k))"

definition negative_time_flags :: flags where
  "negative_time_flags = example_flags\<lparr>run_stage_time := - 1\<rparr>"

definition timed_flags :: flags where
  "timed_flags = example_flags\<lparr>run_stage_time := 5\<rparr>"

text \<open>How often the run function of the benchmark with uid u has been invoked.\<close>

definition invocations :: "string \<Rightarrow> event list \<Rightarrow> nat" where
  "invocations u t = length (filter (\<lambda>ev. ev = (u, BenchmarkRun)) t)"

text \<open>No call made for the spec with uid u raises, except possibly its run function.\<close>

definition only_Run_raises :: "env \<Rightarrow> string \<Rightarrow> bool" where
  "only_Run_raises env u \<longleftrightarrow> (\<forall>t c. c \<noteq> BenchmarkRun \<longrightarrow> outcome env t (u, c) = None)"

text \<open>
  A computation that, for the spec with uid u, returns without raising and without
  invoking the run function.
\<close>

definition quiet :: "string \<Rightarrow> (state \<Rightarrow> exn option \<times> state) \<Rightarrow> bool" where
  "quiet u f \<longleftrightarrow>
     (\<forall>st. uid (spec st) = u \<longrightarrow>
        fst (f st) = None \<and> frame st (snd (f st)) \<and>
        invocations u (trace (world (snd (f st)))) = invocations u (trace (world st)))"



text \<open>The clock passes every bound once enough calls have been made.\<close>

definition clock_unbounded :: "env \<Rightarrow> bool" where
  "clock_unbounded env \<longleftrightarrow> (\<forall>T. \<exists>N. \<forall>t. N \<le> length t \<longrightarrow> T < time_time env t)"

text \<open>The operator interrupts the run function.\<close>

definition interrupt_env :: env where
  "interrupt_env =
     quiet_env\<lparr>outcome := (\<lambda>t ev. if snd ev = BenchmarkRun then Some KeyboardInterrupt else None)\<rparr>"

text \<open>
  The calls cs, made one after the other for the spec with uid u after the history t, all
  return.
\<close>

fun all_return :: "env \<Rightarrow> event list \<Rightarrow> string \<Rightarrow> call list \<Rightarrow> bool" where
  "all_return env t u [] = True"
| "all_return env t u (c # cs) =
     (outcome env t (u, c) = None \<and> all_return env (t @ [(u, c)]) u cs)"

text \<open>The calls of the provision phase that come before \<^verbatim>\<open>spec.Provision()\<close>.\<close>

definition before_Provision :: "call list" where
  "before_Provision =
     [ConstructSparkService, ConstructDpbService, ConstructVirtualMachines, Pickle, benchmark_start]"




definition deadline :: "flags \<Rightarrow> env \<Rightarrow> state \<Rightarrow> int" where
  "deadline F env st = time_time env (trace (world st)) + run_stage_time F"


text \<open>A worker pool that completes the tasks in the reverse of the order of submission.\<close>

definition reversed_pool_env :: env where
  "reversed_pool_env = quiet_env\<lparr>completion_order := rev\<rparr>"

section \<open>What no phase changes\<close>

lemma resources_self [simp]: "\<exists>rs. (s::benchmark_spec) = s\<lparr>resources := rs\<rparr>"
  by (rule exI [of _ "resources s"]) simp

lemma frame_refl [simp]: "frame st st"
  unfolding frame_def by simp

lemma frame_trans: "frame a b \<Longrightarrow> frame b c \<Longrightarrow> frame a c"
  unfolding frame_def by (elim conjE exE) (simp, blast)

lemma framedD: "framed f \<Longrightarrow> f st = (r, st') \<Longrightarrow> frame st st'"
  unfolding framed_def by (metis snd_conv)

lemma framedI: "(\<And>st r st'. f st = (r, st') \<Longrightarrow> frame st st') \<Longrightarrow> framed f"
  unfolding framed_def by (metis prod.collapse)

lemma framed_ext [simp]: "framed (ext env c)"
  unfolding framed_def frame_def ext_def Let_def by simp

lemma framed_skip [simp]: "framed skip"
  by (simp add: framed_def skip_def)

lemma framed_seq [simp]: "framed f \<Longrightarrow> framed g \<Longrightarrow> framed (seq f g)"
  by (rule framedI) (auto simp: seq_def split: prod.splits option.splits dest: framedD intro: frame_trans)

lemma framed_try_finally [simp]: "framed f \<Longrightarrow> framed g \<Longrightarrow> framed (try_finally f g)"
  by (rule framedI) (auto simp: try_finally_def split: prod.splits option.splits dest: framedD intro: frame_trans)

lemma framed_Pickle [simp]: "framed (spec_Pickle env)"
  by (rule framedI) (auto simp: spec_Pickle_def ext_def Let_def frame_def split: prod.splits option.splits)

lemma framed_Provision [simp]: "framed (spec_Provision env)"
  by (rule framedI) (auto simp: spec_Provision_def ext_def Let_def frame_def split: prod.splits option.splits)

lemma framed_AddSamples [simp]: "framed (collector_AddSamples F env xs)"
  by (rule framedI) (auto simp: collector_AddSamples_def ext_def Let_def frame_def split: prod.splits option.splits)

lemma framed_if [simp]: "framed f \<Longrightarrow> framed g \<Longrightarrow> framed (if b then f else g)"
  by simp

lemma framed_DoProvisionPhase [simp]: "framed (DoProvisionPhase env)"
  by (simp add: DoProvisionPhase_def)

lemma framed_DoPreparePhase [simp]: "framed (DoPreparePhase env)"
  by (simp add: DoPreparePhase_def)

lemma framed_DoCleanupPhase [simp]: "framed (DoCleanupPhase env)"
  by (rule framedI) (auto simp: DoCleanupPhase_def dest: framedD [OF framed_seq [OF framed_ext framed_ext]] split: if_splits)

lemma framed_DoTeardownPhase [simp]: "framed (DoTeardownPhase env)"
  by (simp add: DoTeardownPhase_def)

lemma run_try_body_frame: "run_try_body F env st = (r, xs, st') \<Longrightarrow> frame st st'"
  by (auto simp: run_try_body_def Let_def split: prod.splits option.splits if_splits
      dest!: framedD [OF framed_ext] intro: frame_trans)

lemma framed_after_run [simp]: "framed (after_run F env rn xs)"
  by (simp add: after_run_def)

lemma run_iteration_frame: "run_iteration F env rn cf st = (res, st') \<Longrightarrow> frame st st'"
  unfolding run_iteration_def
  by (auto split: prod.splits option.splits
      dest!: framedD [OF framed_ext] run_try_body_frame framedD [OF framed_after_run]
      intro: frame_trans)

lemma run_loop_frame: "run_loop n F env d rn cf st = Some (r, st') \<Longrightarrow> frame st st'"
proof (induction n arbitrary: rn cf st)
  case 0
  then show ?case by simp
next
  case (Suc n)
  obtain res st1 where it: "run_iteration F env rn cf st = (res, st1)"
    by (cases "run_iteration F env rn cf st")
  have f1: "frame st st1" using it by (rule run_iteration_frame)
  show ?case
  proof (cases res)
    case (Raise e)
    with Suc.prems it f1 show ?thesis by simp
  next
    case (Next cf')
    show ?thesis
    proof (cases "time_time env (trace (world st1)) > d")
      case True
      with Suc.prems it Next f1 show ?thesis by simp
    next
      case False
      with Suc.prems it Next have "run_loop n F env d (rn + 1) cf' st1 = Some (r, st')" by simp
      then have "frame st1 st'" by (rule Suc.IH)
      with f1 show ?thesis by (rule frame_trans)
    qed
  qed
qed

lemma DoRunPhase_frame: "DoRunPhase n F env st = Some (r, st') \<Longrightarrow> frame st st'"
  unfolding DoRunPhase_def by (rule run_loop_frame)

lemma frame_status: "frame st st' \<Longrightarrow> status (spec st') = status (spec st)"
  and frame_uid: "frame st st' \<Longrightarrow> uid (spec st') = uid (spec st)"
  and frame_always_call_cleanup:
    "frame st st' \<Longrightarrow> always_call_cleanup (spec st') = always_call_cleanup (spec st)"
  and frame_config_flags: "frame st st' \<Longrightarrow> config_flags (spec st') = config_flags (spec st)"
  and frame_TEARDOWN_EVENT:
    "frame st st' \<Longrightarrow> TEARDOWN_EVENT (world st') = TEARDOWN_EVENT (world st)"
  and frame_trace: "frame st st' \<Longrightarrow> \<exists>es. trace (world st') = trace (world st) @ es"
  unfolding frame_def by auto

lemma framed_oD: "framed_o f \<Longrightarrow> f st = Some (r, st') \<Longrightarrow> frame st st'"
  unfolding framed_o_def by blast

lemma framed_o_Some [simp]: "framed f \<Longrightarrow> framed_o (\<lambda>st. Some (f st))"
  unfolding framed_o_def by (auto dest: framedD)

lemma framed_o_seq_o [simp]: "framed_o f \<Longrightarrow> framed_o g \<Longrightarrow> framed_o (seq_o f g)"
  unfolding framed_o_def seq_o_def
  by (auto split: option.splits prod.splits) (meson frame_trans)

lemma framed_o_DoPhase [simp]: "framed_o (DoPhase n F env s)"
  by (cases s) (auto simp: framed_o_def dest: framedD [OF framed_DoProvisionPhase]
      framedD [OF framed_DoPreparePhase] framedD [OF framed_DoCleanupPhase]
      framedD [OF framed_DoTeardownPhase] DoRunPhase_frame)

lemma framed_o_requested [simp]: "framed_o (requested n F env s)"
  using framed_o_DoPhase [of n F env s] unfolding framed_o_def requested_def by auto

lemma framed_add_timing_samples [simp]: "framed (add_timing_samples F env)"
  unfolding add_timing_samples_def
  by (rule framed_seq; rule framedI) (auto split: if_splits dest: framedD [OF framed_AddSamples])

lemma framed_o_RunBenchmark_try [simp]: "framed_o (RunBenchmark_try n F env)"
  unfolding RunBenchmark_try_def by simp

lemma framed_RunBenchmark_except [simp]: "framed (RunBenchmark_except F env e)"
  by (rule framedI) (auto simp: RunBenchmark_except_def split: if_splits prod.splits option.splits
      dest: framedD [OF framed_DoCleanupPhase])

lemma RunBenchmark_except_raises: "fst (RunBenchmark_except F env e st) \<noteq> None"
  by (auto simp: RunBenchmark_except_def split: prod.splits option.splits)

lemma framed_o_RunBenchmark_try_except [simp]: "framed_o (RunBenchmark_try_except n F env)"
  unfolding framed_o_def RunBenchmark_try_except_def
  by (auto split: option.splits prod.splits dest: framed_oD [OF framed_o_RunBenchmark_try]
      framedD [OF framed_RunBenchmark_except] intro: frame_trans)

lemma framed_RunBenchmark_finally [simp]: "framed (RunBenchmark_finally F env)"
  unfolding RunBenchmark_finally_def
  by (intro framed_seq framed_ext framed_Pickle; rule framedI) (auto split: if_splits dest: framedD [OF framed_ext])

text \<open>The three parts of \<^verbatim>\<open>RunBenchmark\<close>, made explicit.\<close>

lemma RunBenchmark_parts:
  assumes "RunBenchmark n FLAGS env st = Some (r, st')"
  shows "\<exists>r2 st2 rf st3.
      RunBenchmark_try_except n (redirected FLAGS env (mark_failed st)) env (mark_failed st)
        = Some (r2, st2) \<and>
      RunBenchmark_finally (redirected FLAGS env (mark_failed st)) env st2 = (rf, st3) \<and>
      r = (case rf of Some e \<Rightarrow> Some e | None \<Rightarrow> r2) \<and>
      st' = (if r = None then mark_succeeded st3 else st3)"
  using assms unfolding RunBenchmark_def Let_def
  by (auto split: option.splits prod.splits)

section \<open>Evaluating the model on concrete inputs\<close>

lemmas example_defs = example_flags_def example_sample_def quiet_env_def example_spec_def
  example_world_def example_state_def

lemmas pkb_defs = RunBenchmark_def RunBenchmark_try_except_def RunBenchmark_try_def
  RunBenchmark_except_def RunBenchmark_finally_def requested_def STAGES_def seq_o_def
  DoProvisionPhase_def DoPreparePhase_def DoCleanupPhase_def DoTeardownPhase_def
  DoRunPhase_def run_iteration_def run_try_body_def run_except_def after_run_def
  collector_AddSamples_def tag_run_number_def add_timing_samples_def abort_IsAborted_def
  seq_def ext_def spec_Pickle_def try_finally_def spec_Provision_def skip_def
  cluster_boot_BENCHMARK_NAME_def mark_failed_def mark_succeeded_def redirected_def

section \<open>A task that finds the abort flag set\<close>

text \<open>
  C4. A task that starts when the abort flag is already set returns at once: the spec is
  returned as it was given, with an empty list of samples, and the world (its trace of
  calls in particular) is unchanged, so none of the five stages ran.
\<close>

theorem skipped_when_aborted:
  assumes "TEARDOWN_EVENT w"
  shows "RunBenchmarkTask n FLAGS env s w = Some (Inr (s, []), w)"
  using assms by (simp add: RunBenchmarkTask_def)

theorem skipped_when_aborted_witness:
  "TEARDOWN_EVENT (example_world\<lparr>TEARDOWN_EVENT := True\<rparr>) \<and>
   RunBenchmarkTask 1 example_flags quiet_env example_spec (example_world\<lparr>TEARDOWN_EVENT := True\<rparr>)
     = Some (Inr (example_spec, []), example_world\<lparr>TEARDOWN_EVENT := True\<rparr>)"
  using skipped_when_aborted [of "example_world\<lparr>TEARDOWN_EVENT := True\<rparr>" 1 example_flags quiet_env example_spec]
  by simp

section \<open>The status written by RunBenchmark\<close>

lemma frame_mark_status: "frame (mark_failed st) st' \<Longrightarrow> status (spec st') = FAILED"
  by (drule frame_status) (simp add: mark_failed_def)

lemma RunBenchmark_try_stages:
  assumes "RunBenchmark_try n F env st0 = Some (None, st6)"
  shows "\<exists>st1 st2 st3 st4 st5.
      requested n F env PROVISION st0 = Some (None, st1) \<and>
      requested n F env PREPARE st1 = Some (None, st2) \<and>
      requested n F env RUN st2 = Some (None, st3) \<and>
      requested n F env CLEANUP st3 = Some (None, st4) \<and>
      requested n F env TEARDOWN st4 = Some (None, st5) \<and>
      add_timing_samples F env st5 = (None, st6)"
  using assms unfolding RunBenchmark_try_def seq_o_def
  by (auto split: option.splits prod.splits)

lemma RunBenchmark_try_except_None:
  "RunBenchmark_try_except n F env st = Some (None, st') \<longleftrightarrow> RunBenchmark_try n F env st = Some (None, st')"
proof -
  have "RunBenchmark_except F env e st1 \<noteq> (None, st')" for e st1
    using RunBenchmark_except_raises [of F env e st1] by auto
  then show ?thesis
    unfolding RunBenchmark_try_except_def by (auto split: option.splits prod.splits)
qed

text \<open>
  C2, as the code has it. \<^verbatim>\<open>RunBenchmark\<close> marks the spec failed on entry and writes
  succeeded as its last statement. So a spec ends succeeded exactly when nothing was
  raised, and then every requested stage returned without raising; in every other case it
  ends failed.
\<close>

theorem status_after_RunBenchmark:
  assumes "RunBenchmark n FLAGS env st = Some (r, st')"
  shows "status (spec st') = (if r = None then SUCCEEDED else FAILED) \<and>
         (status (spec st') = SUCCEEDED \<longrightarrow>
            (\<exists>st1 st2 st3 st4 st5.
               requested n (redirected FLAGS env (mark_failed st)) env PROVISION (mark_failed st) = Some (None, st1) \<and>
               requested n (redirected FLAGS env (mark_failed st)) env PREPARE st1 = Some (None, st2) \<and>
               requested n (redirected FLAGS env (mark_failed st)) env RUN st2 = Some (None, st3) \<and>
               requested n (redirected FLAGS env (mark_failed st)) env CLEANUP st3 = Some (None, st4) \<and>
               requested n (redirected FLAGS env (mark_failed st)) env TEARDOWN st4 = Some (None, st5)))"
proof -
  from RunBenchmark_parts [OF assms] obtain r2 st2 rf st3 where
    te: "RunBenchmark_try_except n (redirected FLAGS env (mark_failed st)) env (mark_failed st) = Some (r2, st2)"
    and fin: "RunBenchmark_finally (redirected FLAGS env (mark_failed st)) env st2 = (rf, st3)"
    and r: "r = (case rf of Some e \<Rightarrow> Some e | None \<Rightarrow> r2)"
    and st': "st' = (if r = None then mark_succeeded st3 else st3)"
    by blast
  have "frame (mark_failed st) st2"
    using te by (rule framed_oD [OF framed_o_RunBenchmark_try_except])
  moreover have "frame st2 st3"
    using fin by (rule framedD [OF framed_RunBenchmark_finally])
  ultimately have "status (spec st3) = FAILED"
    by (blast intro: frame_trans frame_mark_status)
  then have status: "status (spec st') = (if r = None then SUCCEEDED else FAILED)"
    using st' by (simp add: mark_succeeded_def)
  have "\<exists>st1 st2 st3 st4 st5.
               requested n (redirected FLAGS env (mark_failed st)) env PROVISION (mark_failed st) = Some (None, st1) \<and>
               requested n (redirected FLAGS env (mark_failed st)) env PREPARE st1 = Some (None, st2) \<and>
               requested n (redirected FLAGS env (mark_failed st)) env RUN st2 = Some (None, st3) \<and>
               requested n (redirected FLAGS env (mark_failed st)) env CLEANUP st3 = Some (None, st4) \<and>
               requested n (redirected FLAGS env (mark_failed st)) env TEARDOWN st4 = Some (None, st5)"
    if "r = None"
  proof -
    from that r have "r2 = None" by (cases rf) auto
    with te have "RunBenchmark_try n (redirected FLAGS env (mark_failed st)) env (mark_failed st) = Some (None, st2)"
      by (simp add: RunBenchmark_try_except_None)
    from RunBenchmark_try_stages [OF this] show ?thesis by blast
  qed
  with status show ?thesis by (auto split: if_splits)
qed

lemma example_run: "map_option fst (RunBenchmark 1 example_flags quiet_env example_state) = Some None"
  by (simp add: example_defs pkb_defs)

theorem status_after_RunBenchmark_witness:
  "map_option fst (RunBenchmark 1 example_flags quiet_env example_state) = Some None \<and>
   map_option (status \<circ> spec \<circ> snd) (RunBenchmark 1 example_flags quiet_env example_state) = Some SUCCEEDED"
proof -
  obtain r st' where run: "RunBenchmark 1 example_flags quiet_env example_state = Some (r, st')"
    using example_run by fastforce
  with example_run have "r = None" by simp
  with status_after_RunBenchmark [OF run] have "status (spec st') = SUCCEEDED" by simp
  with run \<open>r = None\<close> show ?thesis by simp
qed

text \<open>
  C2 as stated fails: a spec whose status is failed is moved to succeeded by a run that
  raises nothing, and the checkpoint written in the \<^verbatim>\<open>finally:\<close> clause of that very
  run still records the status failed.
\<close>

theorem failed_status_reverts_counterexample:
  "map_option (status \<circ> spec \<circ> snd)
     (RunBenchmark 1 example_flags quiet_env (example_state\<lparr>spec := example_spec\<lparr>status := FAILED\<rparr>\<rparr>))
     = Some SUCCEEDED \<and>
   map_option (\<lambda>p. map_option status (snapshots (world (snd p)) ''iperf0''))
     (RunBenchmark 1 example_flags quiet_env example_state) = Some (Some FAILED)"
  by (simp add: example_defs pkb_defs)

section \<open>Cleanup after a failure\<close>

lemma frame_set_status:
  "frame (a\<lparr>spec := (spec a)\<lparr>status := x\<rparr>\<rparr>) (b\<lparr>spec := (spec b)\<lparr>status := x\<rparr>\<rparr>)"
  if "frame a b"
proof -
  from that obtain rs es where s: "spec b = (spec a)\<lparr>resources := rs\<rparr>"
    and t: "TEARDOWN_EVENT (world b) = TEARDOWN_EVENT (world a)"
    and e: "trace (world b) = trace (world a) @ es"
    unfolding frame_def by blast
  have "(spec b)\<lparr>status := x\<rparr> = ((spec a)\<lparr>status := x\<rparr>)\<lparr>resources := rs\<rparr>"
    using s by simp
  then show ?thesis
    unfolding frame_def using t e by auto
qed

lemma frame_trace_uid:
  "frame st st' \<Longrightarrow> trace (world st'') = trace (world st') @ es
    \<Longrightarrow> \<exists>es'. trace (world st'') = trace (world st) @ es'"
  unfolding frame_def by auto

lemma DoCleanupPhase_first_call:
  assumes "DoCleanupPhase env st = (r, st')" and "always_call_cleanup (spec st)"
  shows "\<exists>es. trace (world st') = trace (world st) @ (uid (spec st), StopBackgroundWorkload) # es"
  using assms unfolding DoCleanupPhase_def seq_def ext_def Let_def
  by (auto split: option.splits prod.splits)

lemma RunBenchmark_result:
  assumes te: "RunBenchmark_try_except n (redirected FLAGS env (mark_failed st)) env (mark_failed st)
                 = Some (r2, st2)"
  shows "RunBenchmark n FLAGS env st =
           (case RunBenchmark_finally (redirected FLAGS env (mark_failed st)) env st2 of
              (Some e, st3) \<Rightarrow> Some (Some e, st3)
            | (None, st3) \<Rightarrow> (case r2 of Some e \<Rightarrow> Some (Some e, st3)
                                | None \<Rightarrow> Some (None, mark_succeeded st3)))"
  using te unfolding RunBenchmark_def Let_def by simp

text \<open>
  C3, as the code has it. When the \<^verbatim>\<open>try\<close> block raises e, cleanup was requested and
  the spec asks for unconditional cleanup, \<^verbatim>\<open>RunBenchmark\<close> runs the cleanup phase
  next and then raises. What it raises is e only if neither the cleanup phase nor the
  \<^verbatim>\<open>finally:\<close> clause raises: an exception of the cleanup phase takes the place of e,
  and an exception of the \<^verbatim>\<open>finally:\<close> clause takes the place of either.
\<close>

theorem cleanup_then_raise:
  assumes raised: "RunBenchmark_try n (redirected FLAGS env (mark_failed st)) env (mark_failed st)
                  = Some (Some e, st1)"
    and req: "CLEANUP \<in> set (run_stage (redirected FLAGS env (mark_failed st)))"
    and always: "always_call_cleanup (spec st)"
  shows "\<exists>e' st'. RunBenchmark n FLAGS env st = Some (Some e', st') \<and>
           (\<exists>es. trace (world st') =
                    trace (world st1) @ (uid (spec st), StopBackgroundWorkload) # es) \<and>
           e' = (case fst (RunBenchmark_finally (redirected FLAGS env (mark_failed st)) env
                             (snd (DoCleanupPhase env st1))) of
                   Some ef \<Rightarrow> ef
                 | None \<Rightarrow> (case fst (DoCleanupPhase env st1) of Some ec \<Rightarrow> ec | None \<Rightarrow> e))"
proof -
  let ?F = "redirected FLAGS env (mark_failed st)"
  obtain rc stc where cl: "DoCleanupPhase env st1 = (rc, stc)"
    by (cases "DoCleanupPhase env st1")
  obtain rf stf where fin: "RunBenchmark_finally ?F env stc = (rf, stf)"
    by (cases "RunBenchmark_finally ?F env stc")
  have f1: "frame (mark_failed st) st1"
    using raised by (rule framed_oD [OF framed_o_RunBenchmark_try])
  then have a1: "always_call_cleanup (spec st1)" and u1: "uid (spec st1) = uid (spec st)"
    using always by (simp_all add: frame_always_call_cleanup frame_uid mark_failed_def)
  have ex: "RunBenchmark_except ?F env e st1 = (Some (case rc of Some ec \<Rightarrow> ec | None \<Rightarrow> e), stc)"
    using req a1 cl by (simp add: RunBenchmark_except_def split: option.splits)
  have te: "RunBenchmark_try_except n ?F env (mark_failed st)
              = Some (Some (case rc of Some ec \<Rightarrow> ec | None \<Rightarrow> e), stc)"
    using raised ex by (simp add: RunBenchmark_try_except_def)
  have res: "RunBenchmark n FLAGS env st =
      Some (Some (case rf of Some ef \<Rightarrow> ef | None \<Rightarrow> (case rc of Some ec \<Rightarrow> ec | None \<Rightarrow> e)), stf)"
    using RunBenchmark_result [OF te] fin by (simp split: option.splits)
  from DoCleanupPhase_first_call [OF cl a1] u1 obtain es where
    tr: "trace (world stc) = trace (world st1) @ (uid (spec st), StopBackgroundWorkload) # es"
    by auto
  have "frame stc stf" using fin by (rule framedD [OF framed_RunBenchmark_finally])
  then obtain es' where "trace (world stf) = trace (world stc) @ es'"
    by (auto dest: frame_trace)
  with tr have "trace (world stf) =
      trace (world st1) @ (uid (spec st), StopBackgroundWorkload) # (es @ es')"
    by simp
  with res cl fin show ?thesis by (auto split: option.splits)
qed

lemma provision_fails_try:
  "RunBenchmark_try 1 (redirected example_flags provision_fails_env (mark_failed cleanup_state))
     provision_fails_env (mark_failed cleanup_state)
   = Some (Some (Exception ''provision failed''),
       snd (the (RunBenchmark_try 1 (redirected example_flags provision_fails_env (mark_failed cleanup_state))
         provision_fails_env (mark_failed cleanup_state))))"
  by (simp add: example_defs pkb_defs provision_fails_env_def cleanup_state_def)

theorem cleanup_then_raise_witness:
  "map_option fst (RunBenchmark 1 example_flags provision_fails_env cleanup_state)
     = Some (Some (Exception ''provision failed''))"
proof -
  have req: "CLEANUP \<in> set (run_stage (redirected example_flags provision_fails_env (mark_failed cleanup_state)))"
    by (simp add: example_defs pkb_defs provision_fails_env_def cleanup_state_def)
  have always: "always_call_cleanup (spec cleanup_state)"
    by (simp add: cleanup_state_def)
  from cleanup_then_raise [OF provision_fails_try req always]
  show ?thesis
    by (auto simp: example_defs pkb_defs provision_fails_env_def cleanup_state_def)
qed

text \<open>
  C3 as stated fails: when provisioning raises and the cleanup attempt raises too, the
  exception that reaches the caller is the one of the cleanup attempt.
\<close>

theorem cleanup_failure_replaces_error_counterexample:
  "map_option fst (RunBenchmark_try 1 example_flags cleanup_fails_env (mark_failed cleanup_state))
     = Some (Some (Exception ''provision failed'')) \<and>
   map_option fst (RunBenchmark 1 example_flags cleanup_fails_env cleanup_state)
     = Some (Some (Exception ''cleanup failed''))"
  by (simp add: example_defs pkb_defs cleanup_fails_env_def cleanup_state_def)

section \<open>The abort flag and teardown\<close>

lemma RunBenchmark_finally_trace:
  assumes "RunBenchmark_finally F env st = (rf, st')"
  shows "if TEARDOWN \<in> set (run_stage F) \<and> \<not> abort_IsAborted (world st)
         then \<exists>es. trace (world st') = trace (world st) @ (uid (spec st), Delete) # es
         else \<exists>es. trace (world st') = trace (world st) @ es \<and> (\<forall>u. (u, Delete) \<notin> set es)"
  using assms unfolding RunBenchmark_finally_def seq_def ext_def spec_Pickle_def Let_def
  by (auto split: option.splits prod.splits if_splits)

lemma RunBenchmark_frame:
  assumes "RunBenchmark n FLAGS env st = Some (r, st')"
  shows "frame (st\<lparr>spec := (spec st)\<lparr>status := status (spec st')\<rparr>\<rparr>) st'"
proof -
  from RunBenchmark_parts [OF assms] obtain r2 st2 rf st3 where
    te: "RunBenchmark_try_except n (redirected FLAGS env (mark_failed st)) env (mark_failed st) = Some (r2, st2)"
    and fin: "RunBenchmark_finally (redirected FLAGS env (mark_failed st)) env st2 = (rf, st3)"
    and st': "st' = (if r = None then mark_succeeded st3 else st3)"
    by blast
  have "frame (mark_failed st) st2"
    using te by (rule framed_oD [OF framed_o_RunBenchmark_try_except])
  moreover have "frame st2 st3"
    using fin by (rule framedD [OF framed_RunBenchmark_finally])
  ultimately have f: "frame (mark_failed st) st3" by (rule frame_trans)
  then have s3: "status (spec st3) = FAILED" by (rule frame_mark_status)
  show ?thesis
  proof (cases "r = None")
    case True
    with st' have "st' = st3\<lparr>spec := (spec st3)\<lparr>status := SUCCEEDED\<rparr>\<rparr>"
      by (simp add: mark_succeeded_def)
    moreover from frame_set_status [OF f, of SUCCEEDED]
    have "frame (st\<lparr>spec := (spec st)\<lparr>status := SUCCEEDED\<rparr>\<rparr>) (st3\<lparr>spec := (spec st3)\<lparr>status := SUCCEEDED\<rparr>\<rparr>)"
      by (simp add: mark_failed_def)
    ultimately show ?thesis by simp
  next
    case False
    with st' s3 f show ?thesis by (simp add: mark_failed_def)
  qed
qed

text \<open>
  C5, with \<^verbatim>\<open>abort.IsAborted()\<close> as the specification describes it. A task that is
  not skipped returns the final spec and the samples; it leaves the abort flag set exactly
  when the run raised and either the exception is a keyboard interrupt or the
  stop-on-failure policy is on, and with the flag set every later task is skipped. In
  that run the \<^verbatim>\<open>finally:\<close> clause is entered with the flag unset, and whether the
  pipeline raised or not its first call is \<^verbatim>\<open>spec.Delete()\<close> when teardown was
  requested. A \<^verbatim>\<open>finally:\<close> clause entered with the flag set makes no call of
  \<^verbatim>\<open>spec.Delete()\<close>.
\<close>

theorem one_abort_flag:
  assumes run: "RunBenchmark n FLAGS env \<lparr>spec = task_spec FLAGS s, samples = [], world = w\<rparr>
                  = Some (r, st')"
    and fresh: "\<not> TEARDOWN_EVENT w"
  shows "(\<exists>w'. RunBenchmarkTask n FLAGS env s w = Some (Inr (spec st', samples st'), w') \<and>
           (abort_IsAborted w' \<longleftrightarrow>
              (\<exists>e. r = Some e \<and> (e = KeyboardInterrupt \<or> stop_after_benchmark_failure FLAGS))) \<and>
           (abort_IsAborted w' \<longrightarrow>
              (\<forall>n2 s2. RunBenchmarkTask n2 FLAGS env s2 w' = Some (Inr (s2, []), w')))) \<and>
         (\<exists>r2 st2.
           RunBenchmark_try_except n
               (redirected FLAGS env (mark_failed \<lparr>spec = task_spec FLAGS s, samples = [], world = w\<rparr>)) env
               (mark_failed \<lparr>spec = task_spec FLAGS s, samples = [], world = w\<rparr>) = Some (r2, st2) \<and>
           \<not> abort_IsAborted (world st2) \<and>
           (TEARDOWN \<in> set (run_stage
               (redirected FLAGS env (mark_failed \<lparr>spec = task_spec FLAGS s, samples = [], world = w\<rparr>)))
             \<longrightarrow> (\<exists>es. trace (world st') = trace (world st2) @ (uid s, Delete) # es))) \<and>
         (\<forall>F st2. abort_IsAborted (world st2) \<longrightarrow>
           (\<exists>es. trace (world (snd (RunBenchmark_finally F env st2))) = trace (world st2) @ es \<and>
                 (uid (spec st2), Delete) \<notin> set es))"
proof -
  let ?st = "\<lparr>spec = task_spec FLAGS s, samples = [], world = w\<rparr>"
  let ?F = "redirected FLAGS env (mark_failed ?st)"
  have fr: "frame (?st\<lparr>spec := (spec ?st)\<lparr>status := status (spec st')\<rparr>\<rparr>) st'"
    using run by (rule RunBenchmark_frame)
  then have t': "\<not> TEARDOWN_EVENT (world st')"
    using fresh by (auto dest: frame_TEARDOWN_EVENT)
  have A: "\<exists>w'. RunBenchmarkTask n FLAGS env s w = Some (Inr (spec st', samples st'), w') \<and>
           (abort_IsAborted w' \<longleftrightarrow>
              (\<exists>e. r = Some e \<and> (e = KeyboardInterrupt \<or> stop_after_benchmark_failure FLAGS))) \<and>
           (abort_IsAborted w' \<longrightarrow>
              (\<forall>n2 s2. RunBenchmarkTask n2 FLAGS env s2 w' = Some (Inr (s2, []), w')))"
    using run fresh t'
    by (auto simp: RunBenchmarkTask_def abort_IsAborted_def Let_def split: option.splits)
  from RunBenchmark_parts [OF run] obtain r2 st2 rf st3 where
    te: "RunBenchmark_try_except n ?F env (mark_failed ?st) = Some (r2, st2)"
    and fin: "RunBenchmark_finally ?F env st2 = (rf, st3)"
    and st': "st' = (if r = None then mark_succeeded st3 else st3)"
    by blast
  have f2: "frame (mark_failed ?st) st2"
    using te by (rule framed_oD [OF framed_o_RunBenchmark_try_except])
  then have na: "\<not> abort_IsAborted (world st2)" and u2: "uid (spec st2) = uid s"
    using fresh
    by (auto simp: abort_IsAborted_def mark_failed_def task_spec_def
        dest: frame_TEARDOWN_EVENT frame_uid)
  have tr: "trace (world st') = trace (world st3)"
    using st' by (simp add: mark_succeeded_def)
  from RunBenchmark_finally_trace [OF fin] na u2 tr
  have "TEARDOWN \<in> set (run_stage ?F)
          \<longrightarrow> (\<exists>es. trace (world st') = trace (world st2) @ (uid s, Delete) # es)"
    by (auto split: if_splits)
  with te na have B: "\<exists>r2 st2.
           RunBenchmark_try_except n ?F env (mark_failed ?st) = Some (r2, st2) \<and>
           \<not> abort_IsAborted (world st2) \<and>
           (TEARDOWN \<in> set (run_stage ?F)
             \<longrightarrow> (\<exists>es. trace (world st') = trace (world st2) @ (uid s, Delete) # es))"
    by blast
  have C: "\<forall>F st2. abort_IsAborted (world st2) \<longrightarrow>
           (\<exists>es. trace (world (snd (RunBenchmark_finally F env st2))) = trace (world st2) @ es \<and>
                 (uid (spec st2), Delete) \<notin> set es)"
  proof (intro allI impI)
    fix F and st2 :: state assume a: "abort_IsAborted (world st2)"
    obtain rf st3 where "RunBenchmark_finally F env st2 = (rf, st3)"
      by (cases "RunBenchmark_finally F env st2")
    from RunBenchmark_finally_trace [OF this] a this
    show "\<exists>es. trace (world (snd (RunBenchmark_finally F env st2))) = trace (world st2) @ es \<and>
                 (uid (spec st2), Delete) \<notin> set es"
      by auto
  qed
  from A B C show ?thesis by blast
qed

lemma run_fails_run:
  "RunBenchmark 1 stop_flags run_fails_env
     \<lparr>spec = task_spec stop_flags example_spec, samples = [], world = example_world\<rparr>
   = Some (Some (Exception ''run failed''),
       snd (the (RunBenchmark 1 stop_flags run_fails_env
         \<lparr>spec = task_spec stop_flags example_spec, samples = [], world = example_world\<rparr>)))"
  by (simp add: example_defs pkb_defs run_fails_env_def stop_flags_def task_spec_def)

theorem one_abort_flag_witness:
  "map_option (abort_IsAborted \<circ> snd)
     (RunBenchmarkTask 1 stop_flags run_fails_env example_spec example_world) = Some True"
proof -
  have fresh: "\<not> TEARDOWN_EVENT example_world"
    by (simp add: example_world_def)
  from one_abort_flag [OF run_fails_run fresh] obtain w' where
    "RunBenchmarkTask 1 stop_flags run_fails_env example_spec example_world
       = Some (Inr (spec (snd (the (RunBenchmark 1 stop_flags run_fails_env
           \<lparr>spec = task_spec stop_flags example_spec, samples = [], world = example_world\<rparr>))),
         samples (snd (the (RunBenchmark 1 stop_flags run_fails_env
           \<lparr>spec = task_spec stop_flags example_spec, samples = [], world = example_world\<rparr>)))), w')"
    and "abort_IsAborted w' \<longleftrightarrow>
           (\<exists>e. Some (Exception ''run failed'') = Some e \<and>
                (e = KeyboardInterrupt \<or> stop_after_benchmark_failure stop_flags))"
    by blast
  then show ?thesis by (simp add: stop_flags_def)
qed

section \<open>Checkpoints of the provision phase\<close>

text \<open>
  C9. Let the three constructors, the first \<^verbatim>\<open>Pickle\<close> and the benchmark-start
  notification return. Then the calls of the provision phase are, in this order: the
  three constructors, the first \<^verbatim>\<open>Pickle\<close>, the notification,
  \<^verbatim>\<open>Provision\<close>, and a second \<^verbatim>\<open>Pickle\<close>, whether \<^verbatim>\<open>Provision\<close> returned
  or raised. The spec then holds the resource identifiers that \<^verbatim>\<open>Provision\<close>
  obtained. If the second \<^verbatim>\<open>Pickle\<close> returns, the saved snapshot is that spec, and the
  phase ends as \<^verbatim>\<open>Provision\<close> did; if it raises, the snapshot of the first
  \<^verbatim>\<open>Pickle\<close> is still the saved one.
\<close>

theorem provision_checkpoints:
  assumes "all_return env (trace (world st)) (uid (spec st)) before_Provision"
  shows "trace (world (snd (DoProvisionPhase env st))) =
           trace (world st) @ map (Pair (uid (spec st))) before_Provision @
             [(uid (spec st), Provision), (uid (spec st), Pickle)] \<and>
         spec (snd (DoProvisionPhase env st)) =
           (spec st)\<lparr>resources := resources (spec st) @
              Provision_resources env
                (trace (world st) @ map (Pair (uid (spec st))) before_Provision) (uid (spec st))\<rparr> \<and>
         (case outcome env
                 (trace (world st) @ map (Pair (uid (spec st))) before_Provision @
                    [(uid (spec st), Provision)])
                 (uid (spec st), Pickle) of
            None \<Rightarrow>
              snapshots (world (snd (DoProvisionPhase env st))) (uid (spec st))
                = Some (spec (snd (DoProvisionPhase env st))) \<and>
              fst (DoProvisionPhase env st) =
                outcome env (trace (world st) @ map (Pair (uid (spec st))) before_Provision)
                  (uid (spec st), Provision)
          | Some e \<Rightarrow>
              snapshots (world (snd (DoProvisionPhase env st))) (uid (spec st)) = Some (spec st) \<and>
              fst (DoProvisionPhase env st) = Some e)"
  using assms
  unfolding DoProvisionPhase_def seq_def try_finally_def spec_Pickle_def spec_Provision_def
    ext_def Let_def before_Provision_def
  by (auto split: option.splits prod.splits)

theorem provision_checkpoints_witness:
  "all_return quiet_env [] ''iperf0'' before_Provision \<and>
   fst (DoProvisionPhase quiet_env example_state) = None \<and>
   map snd (trace (world (snd (DoProvisionPhase quiet_env example_state))))
     = before_Provision @ [Provision, Pickle] \<and>
   map_option resources
     (snapshots (world (snd (DoProvisionPhase quiet_env example_state))) ''iperf0'')
     = Some [''vm-0''] \<and>
   all_return provision_fails_env [] ''iperf0'' before_Provision \<and>
   fst (DoProvisionPhase provision_fails_env example_state) = Some (Exception ''provision failed'') \<and>
   map snd (trace (world (snd (DoProvisionPhase provision_fails_env example_state))))
     = before_Provision @ [Provision, Pickle] \<and>
   map_option resources
     (snapshots (world (snd (DoProvisionPhase provision_fails_env example_state))) ''iperf0'')
     = Some [''vm-0'']"
proof -
  have q: "all_return quiet_env (trace (world example_state)) (uid (spec example_state)) before_Provision"
    and f: "all_return provision_fails_env (trace (world example_state)) (uid (spec example_state))
              before_Provision"
    by (simp_all add: example_defs provision_fails_env_def before_Provision_def)
  from provision_checkpoints [OF q] provision_checkpoints [OF f] q f show ?thesis
    by (simp add: example_defs provision_fails_env_def before_Provision_def)
qed

section \<open>Run identifiers of concurrent specs\<close>







lemma map_of_update_same: "map_of (AList.update k v al) k = Some v"
  by (simp add: update_conv')




lemma RunBenchmarkTask_Inr:
  "RunBenchmarkTask n FLAGS env s w = Some (res, w') \<Longrightarrow> \<exists>s' xs. res = Inr (s', xs)"
  by (auto simp: RunBenchmarkTask_def Let_def split: if_splits option.splits)



section \<open>Run numbers\<close>

lemma batches_append [simp]:
  "created_batches (t @ u) = created_batches t @ created_batches u"
  "added_batches (t @ u) = added_batches t @ added_batches u"
  by (simp_all add: created_batches_def added_batches_def)

lemma batches_Nil [simp]: "created_batches [] = []" "added_batches [] = []"
  by (simp_all add: created_batches_def added_batches_def)

lemma batches_Cons [simp]:
  "created_batches ((u, c) # t) = (case c of samples_created xs \<Rightarrow> [xs] | _ \<Rightarrow> []) @ created_batches t"
  "added_batches ((u, c) # t) = (case c of AddSamples xs \<Rightarrow> [xs] | _ \<Rightarrow> []) @ added_batches t"
  by (simp_all add: created_batches_def added_batches_def)

lemma tagged_Nil [simp]: "tagged F rn [] created"
  by (simp add: tagged_def)

lemma tagged_single [simp]: "tagged F rn [tag_run_number F rn xs] [xs]"
  by (simp add: tagged_def)

lemma tagged_Cons:
  assumes "tagged F (rn + 1) added created"
  shows "tagged F rn (tag_run_number F rn xs # added) (xs # created)"
  unfolding tagged_def
proof (intro conjI allI impI)
  show "length (tag_run_number F rn xs # added) \<le> length (xs # created)"
    using assms by (simp add: tagged_def)
next
  fix k assume k: "k < length (tag_run_number F rn xs # added)"
  show "(tag_run_number F rn xs # added) ! k = tag_run_number F (rn + int k) ((xs # created) ! k)"
  proof (cases k)
    case 0
    then show ?thesis by simp
  next
    case (Suc j)
    with k assms have "added ! j = tag_run_number F (rn + 1 + int j) (created ! j)"
      by (simp add: tagged_def)
    with Suc show ?thesis by (simp add: algebra_simps)
  qed
qed

lemma after_run_batches:
  assumes "after_run F env rn xs st = (r, st')"
  shows "\<exists>es. trace (world st') = trace (world st) @ es \<and> created_batches es = [xs] \<and>
              (added_batches es = [tag_run_number F rn xs] \<or> (added_batches es = [] \<and> r \<noteq> None))"
  using assms unfolding after_run_def seq_def collector_AddSamples_def ext_def skip_def Let_def
  by (auto split: option.splits prod.splits if_splits) metis+

lemma run_try_body_batches:
  assumes "run_try_body F env st = (r, xs, st')"
  shows "\<exists>es. trace (world st') = trace (world st) @ es \<and> created_batches es = [] \<and>
              added_batches es = []"
  using assms unfolding run_try_body_def ext_def Let_def
  by (auto split: option.splits prod.splits if_splits)

lemma ext_batches:
  assumes "ext env c st = (r, st')" and "\<forall>xs. c \<noteq> samples_created xs \<and> c \<noteq> AddSamples xs"
  shows "\<exists>es. trace (world st') = trace (world st) @ es \<and> created_batches es = [] \<and>
              added_batches es = []"
  using assms unfolding ext_def Let_def by (cases c) auto

lemma run_iteration_batches:
  assumes "run_iteration F env rn cf st = (res, st')"
  shows "\<exists>es. trace (world st') = trace (world st) @ es \<and>
           (case res of
              Next cf' \<Rightarrow> (\<exists>xs. created_batches es = [xs] \<and> added_batches es = [tag_run_number F rn xs])
            | Raise e \<Rightarrow> tagged F rn (added_batches es) (created_batches es))"
proof -
  obtain r0 st1 where b: "ext env before_phase_RUN st = (r0, st1)"
    by (cases "ext env before_phase_RUN st")
  from ext_batches [OF b] obtain es0 where
    e0: "trace (world st1) = trace (world st) @ es0" "created_batches es0 = []" "added_batches es0 = []"
    by auto
  show ?thesis
  proof (cases r0)
    case (Some e)
    with assms b have "res = Raise e" "st' = st1" by (simp_all add: run_iteration_def)
    with e0 show ?thesis by auto
  next
    case None
    obtain r xs st2 where t: "run_try_body F env st1 = (r, xs, st2)"
      by (cases "run_try_body F env st1")
    from run_try_body_batches [OF t] e0 obtain es1 where
      e1: "trace (world st2) = trace (world st) @ es1" "created_batches es1 = []" "added_batches es1 = []"
      by auto
    obtain pending cf' where x: "run_except F cf r = (pending, cf')"
      by (cases "run_except F cf r")
    obtain r3 st3 where a: "ext env after_phase_RUN st2 = (r3, st3)"
      by (cases "ext env after_phase_RUN st2")
    from ext_batches [OF a] e1 obtain es3 where
      e3: "trace (world st3) = trace (world st) @ es3" "created_batches es3 = []" "added_batches es3 = []"
      by auto
    show ?thesis
    proof (cases "r3 = None \<and> pending = None")
      case False
      with assms b None t x a have "\<exists>e. res = Raise e" "st' = st3"
        by (auto simp: run_iteration_def split: option.splits)
      with e3 show ?thesis by auto
    next
      case True
      obtain r4 st4 where p: "after_run F env rn xs st3 = (r4, st4)"
        by (cases "after_run F env rn xs st3")
      from after_run_batches [OF p] e3 obtain es4 where
        e4: "trace (world st4) = trace (world st) @ es4" "created_batches es4 = [xs]"
          "added_batches es4 = [tag_run_number F rn xs] \<or> (added_batches es4 = [] \<and> r4 \<noteq> None)"
        by auto
      from assms b None t x a True p have
        "st' = st4" "res = (case r4 of Some e \<Rightarrow> Raise e | None \<Rightarrow> Next cf')"
        by (auto simp: run_iteration_def split: option.splits)
      with e4 show ?thesis by (cases r4) auto
    qed
  qed
qed

lemma run_loop_batches:
  "run_loop n F env d rn cf st = Some (r, st')
    \<Longrightarrow> \<exists>es. trace (world st') = trace (world st) @ es \<and>
             tagged F rn (added_batches es) (created_batches es)"
proof (induction n arbitrary: rn cf st)
  case 0
  then show ?case by simp
next
  case (Suc n)
  obtain res st1 where it: "run_iteration F env rn cf st = (res, st1)"
    by (cases "run_iteration F env rn cf st")
  from run_iteration_batches [OF it] obtain es1 where
    e1: "trace (world st1) = trace (world st) @ es1"
    and c1: "case res of
              Next cf' \<Rightarrow> (\<exists>xs. created_batches es1 = [xs] \<and> added_batches es1 = [tag_run_number F rn xs])
            | Raise e \<Rightarrow> tagged F rn (added_batches es1) (created_batches es1)"
    by blast
  show ?case
  proof (cases res)
    case (Raise e)
    with Suc.prems it e1 c1 show ?thesis by auto
  next
    case (Next cf')
    with c1 obtain xs where
      b1: "created_batches es1 = [xs]" "added_batches es1 = [tag_run_number F rn xs]"
      by auto
    show ?thesis
    proof (cases "time_time env (trace (world st1)) > d")
      case True
      with Suc.prems it Next e1 b1 show ?thesis by auto
    next
      case False
      with Suc.prems it Next have "run_loop n F env d (rn + 1) cf' st1 = Some (r, st')" by simp
      from Suc.IH [OF this] obtain es2 where
        e2: "trace (world st') = trace (world st1) @ es2"
        and t2: "tagged F (rn + 1) (added_batches es2) (created_batches es2)"
        by blast
      from e1 e2 have "trace (world st') = trace (world st) @ (es1 @ es2)" by simp
      moreover from b1 tagged_Cons [OF t2, of xs]
      have "tagged F rn (added_batches (es1 @ es2)) (created_batches (es1 @ es2))" by simp
      ultimately show ?thesis by blast
    qed
  qed
qed

lemma tag_run_number_nonzero:
  "run_stage_time F \<noteq> 0 \<Longrightarrow> s \<in> set (tag_run_number F rn xs)
    \<Longrightarrow> map_of (metadata s) ''run_number'' = Some (MInt rn)"
  by (auto simp: tag_run_number_def map_of_update_same)

text \<open>
  C8, as the code has it. Among the calls of one run phase, the k-th sample list handed
  to the collector (counting from 0) comes from the k-th list announced on the event bus.
  When \<^verbatim>\<open>run_stage_time\<close> is not zero, every sample in it carries the entry
  \<^verbatim>\<open>run_number\<close> = k; when \<^verbatim>\<open>run_stage_time\<close> is zero, it is the announced list,
  unchanged.
\<close>

theorem run_number_tags:
  assumes "DoRunPhase n F env st = Some (r, st')"
  shows "length (added_batches (drop (length (trace (world st))) (trace (world st'))))
           \<le> length (created_batches (drop (length (trace (world st))) (trace (world st')))) \<and>
         (\<forall>k < length (added_batches (drop (length (trace (world st))) (trace (world st')))).
            if run_stage_time F \<noteq> 0
            then \<forall>s \<in> set (added_batches (drop (length (trace (world st))) (trace (world st'))) ! k).
                   map_of (metadata s) ''run_number'' = Some (MInt (int k))
            else added_batches (drop (length (trace (world st))) (trace (world st'))) ! k
                   = created_batches (drop (length (trace (world st))) (trace (world st'))) ! k)"
proof -
  from assms run_loop_batches obtain es where
    es: "trace (world st') = trace (world st) @ es"
    and t: "tagged F 0 (added_batches es) (created_batches es)"
    unfolding DoRunPhase_def by blast
  from es have d: "drop (length (trace (world st))) (trace (world st')) = es" by simp
  from t show ?thesis
    unfolding d tagged_def
    by (auto simp: tag_run_number_nonzero) (simp add: tag_run_number_def)
qed

lemma timed_run:
  "DoRunPhase 2 timed_flags quiet_env example_state
     = Some (None, snd (the (DoRunPhase 2 timed_flags quiet_env example_state)))"
  "map (map (\<lambda>s. map_of (metadata s) ''run_number''))
     (added_batches (trace (world (snd (the (DoRunPhase 2 timed_flags quiet_env example_state))))))
     = [Some (MInt 0)] # [Some (MInt 1)] # []"
  by (simp_all add: example_defs pkb_defs timed_flags_def numeral_2_eq_2)

theorem run_number_tags_witness:
  "length (added_batches (trace (world (snd (the (DoRunPhase 2 timed_flags quiet_env example_state))))))
     = 2 \<and>
   list_all (\<lambda>s. map_of (metadata s) ''run_number'' = Some (MInt 1))
     (added_batches (trace (world (snd (the (DoRunPhase 2 timed_flags quiet_env example_state))))) ! 1)"
proof -
  have len: "length (added_batches (trace (world (snd (the (DoRunPhase 2 timed_flags quiet_env example_state))))))
     = 2"
    using timed_run(2) by (metis length_map length_Cons list.size(3) numeral_2_eq_2)
  have nz: "run_stage_time timed_flags \<noteq> 0"
    by (simp add: timed_flags_def)
  have start: "trace (world example_state) = []"
    by (simp add: example_state_def example_world_def)
  from run_number_tags [OF timed_run(1)] have
    "\<forall>k < length (added_batches (trace (world (snd (the (DoRunPhase 2 timed_flags quiet_env example_state)))))).
       \<forall>s \<in> set (added_batches (trace (world (snd (the (DoRunPhase 2 timed_flags quiet_env example_state))))) ! k).
         map_of (metadata s) ''run_number'' = Some (MInt (int k))"
    unfolding start using nz by simp
  then have "\<forall>s \<in> set (added_batches (trace (world (snd (the (DoRunPhase 2 timed_flags quiet_env example_state))))) ! 1).
         map_of (metadata s) ''run_number'' = Some (MInt (int 1))"
    using len by (elim allE [of _ 1]) simp
  with len show ?thesis
    by (simp add: list_all_iff)
qed

text \<open>
  C8 as stated fails: with \<^verbatim>\<open>run_stage_time\<close> = -1 the time-boxed mode is not active,
  and the sample of the single iteration is tagged all the same.
\<close>

theorem tagged_without_time_box_counterexample:
  "\<not> 0 < run_stage_time negative_time_flags \<and>
   map_option (\<lambda>p. map (\<lambda>s. map_of (metadata s) ''run_number'') (samples (snd p)))
     (DoRunPhase 1 negative_time_flags quiet_env example_state) = Some [Some (MInt 0)]"
  by (simp add: example_defs pkb_defs negative_time_flags_def setdefault_def
      attach_batch_metadata_def update_conv')

section \<open>Retries in the run phase\<close>

lemma invocations_append [simp]: "invocations u (t @ t') = invocations u t + invocations u t'"
  by (simp add: invocations_def)

lemma invocations_simps [simp]:
  "invocations u [] = 0"
  "invocations u ((u', c) # t) = (if u' = u \<and> c = BenchmarkRun then 1 else 0) + invocations u t"
  by (auto simp: invocations_def)

lemma quietD:
  assumes "quiet u f" and "uid (spec st) = u"
  shows "\<exists>st'. f st = (None, st') \<and> frame st st' \<and> uid (spec st') = u \<and>
           invocations u (trace (world st')) = invocations u (trace (world st))"
proof -
  from assms have "fst (f st) = None" "frame st (snd (f st))"
    "invocations u (trace (world (snd (f st)))) = invocations u (trace (world st))"
    unfolding quiet_def by blast+
  moreover from this(2) assms(2) have "uid (spec (snd (f st))) = u"
    by (simp add: frame_uid)
  ultimately show ?thesis by (metis prod.collapse)
qed

lemma quietI:
  assumes "\<And>st. uid (spec st) = u \<Longrightarrow> \<exists>st'. f st = (None, st') \<and> frame st st' \<and>
           invocations u (trace (world st')) = invocations u (trace (world st))"
  shows "quiet u f"
  unfolding quiet_def using assms by fastforce

lemma quiet_ext:
  "only_Run_raises env u \<Longrightarrow> c \<noteq> BenchmarkRun \<Longrightarrow> quiet u (ext env c)"
  by (rule quietI) (auto simp: only_Run_raises_def ext_def Let_def frame_def)

lemma quiet_skip [simp]: "quiet u skip"
  by (rule quietI) (simp add: skip_def)

lemma quiet_seq: "quiet u f \<Longrightarrow> quiet u g \<Longrightarrow> quiet u (seq f g)"
proof (rule quietI)
  fix st :: state assume f: "quiet u f" and g: "quiet u g" and u: "uid (spec st) = u"
  from quietD [OF f u] obtain st1 where
    1: "f st = (None, st1)" "frame st st1" "uid (spec st1) = u"
      "invocations u (trace (world st1)) = invocations u (trace (world st))"
    by blast
  from quietD [OF g 1(3)] obtain st2 where
    2: "g st1 = (None, st2)" "frame st1 st2"
      "invocations u (trace (world st2)) = invocations u (trace (world st1))"
    by blast
  from 1 2 show "\<exists>st'. seq f g st = (None, st') \<and> frame st st' \<and>
           invocations u (trace (world st')) = invocations u (trace (world st))"
    by (auto simp: seq_def intro: frame_trans)
qed

lemma quiet_try_finally: "quiet u f \<Longrightarrow> quiet u g \<Longrightarrow> quiet u (try_finally f g)"
proof (rule quietI)
  fix st :: state assume f: "quiet u f" and g: "quiet u g" and u: "uid (spec st) = u"
  from quietD [OF f u] obtain st1 where
    1: "f st = (None, st1)" "frame st st1" "uid (spec st1) = u"
      "invocations u (trace (world st1)) = invocations u (trace (world st))"
    by blast
  from quietD [OF g 1(3)] obtain st2 where
    2: "g st1 = (None, st2)" "frame st1 st2"
      "invocations u (trace (world st2)) = invocations u (trace (world st1))"
    by blast
  from 1 2 show "\<exists>st'. try_finally f g st = (None, st') \<and> frame st st' \<and>
           invocations u (trace (world st')) = invocations u (trace (world st))"
    by (auto simp: try_finally_def intro: frame_trans)
qed

lemma quiet_Pickle: "only_Run_raises env u \<Longrightarrow> quiet u (spec_Pickle env)"
  by (rule quietI) (auto simp: only_Run_raises_def spec_Pickle_def ext_def Let_def frame_def)

lemma quiet_Provision: "only_Run_raises env u \<Longrightarrow> quiet u (spec_Provision env)"
  by (rule quietI) (auto simp: only_Run_raises_def spec_Provision_def ext_def Let_def frame_def)

lemma quiet_AddSamples: "only_Run_raises env u \<Longrightarrow> quiet u (collector_AddSamples F env xs)"
  by (rule quietI) (auto simp: only_Run_raises_def collector_AddSamples_def ext_def Let_def frame_def)

lemma quiet_if: "quiet u f \<Longrightarrow> quiet u g \<Longrightarrow> quiet u (if b then f else g)"
  by simp

lemma quiet_None [simp]: "quiet u (\<lambda>st. (None, st))"
  by (rule quietI) simp

lemmas quiet_intros = quiet_seq quiet_try_finally quiet_Pickle quiet_Provision quiet_AddSamples
  quiet_ext quiet_skip quiet_if quiet_None

lemma quiet_DoProvisionPhase: "only_Run_raises env u \<Longrightarrow> quiet u (DoProvisionPhase env)"
  unfolding DoProvisionPhase_def by (intro quiet_intros) simp_all

lemma quiet_DoPreparePhase: "only_Run_raises env u \<Longrightarrow> quiet u (DoPreparePhase env)"
  unfolding DoPreparePhase_def by (intro quiet_intros) simp_all

lemma quiet_DoCleanupPhase: "only_Run_raises env u \<Longrightarrow> quiet u (DoCleanupPhase env)"
proof (rule quietI)
  fix st :: state assume c: "only_Run_raises env u" and u: "uid (spec st) = u"
  have "quiet u (seq (ext env StopBackgroundWorkload) (ext env BenchmarkCleanup))"
    using c by (intro quiet_intros) simp_all
  from quietD [OF this u] show "\<exists>st'. DoCleanupPhase env st = (None, st') \<and> frame st st' \<and>
           invocations u (trace (world st')) = invocations u (trace (world st))"
    by (auto simp: DoCleanupPhase_def)
qed

lemma quiet_DoTeardownPhase: "only_Run_raises env u \<Longrightarrow> quiet u (DoTeardownPhase env)"
  unfolding DoTeardownPhase_def by (intro quiet_intros) simp_all






lemma requested_quiet:
  assumes calm: "only_Run_raises env u" and u: "uid (spec st) = u" and s: "s \<noteq> RUN"
  shows "\<exists>st'. requested n F env s st = Some (None, st') \<and> frame st st' \<and> uid (spec st') = u \<and>
           invocations u (trace (world st')) = invocations u (trace (world st))"
proof (cases "s \<in> set (run_stage F)")
  case False
  with u show ?thesis by (simp add: requested_def)
next
  case True
  have "quiet u (DoProvisionPhase env)" "quiet u (DoPreparePhase env)"
    "quiet u (DoCleanupPhase env)" "quiet u (DoTeardownPhase env)"
    using calm by (simp_all add: quiet_DoProvisionPhase quiet_DoPreparePhase
        quiet_DoCleanupPhase quiet_DoTeardownPhase)
  from this [THEN quietD, OF u] True s show ?thesis
    by (cases s) (auto simp: requested_def)
qed

lemma RunBenchmark_try_before_run:
  assumes calm: "only_Run_raises env u" and u: "uid (spec st) = u"
  shows "\<exists>st2. frame st st2 \<and> uid (spec st2) = u \<and>
           invocations u (trace (world st2)) = invocations u (trace (world st)) \<and>
           RunBenchmark_try n F env st =
             seq_o (requested n F env RUN)
               (seq_o (requested n F env CLEANUP)
               (seq_o (requested n F env TEARDOWN)
                      (\<lambda>st. Some (add_timing_samples F env st)))) st2"
proof -
  from requested_quiet [OF calm u, of PROVISION n F] obtain st1 where
    1: "requested n F env PROVISION st = Some (None, st1)" "frame st st1" "uid (spec st1) = u"
      "invocations u (trace (world st1)) = invocations u (trace (world st))"
    by auto
  from requested_quiet [OF calm 1(3), of PREPARE n F] obtain st2 where
    2: "requested n F env PREPARE st1 = Some (None, st2)" "frame st1 st2" "uid (spec st2) = u"
      "invocations u (trace (world st2)) = invocations u (trace (world st1))"
    by auto
  from 1 2 show ?thesis
    by (auto simp: RunBenchmark_try_def seq_o_def intro: frame_trans)
qed



















section \<open>Tasks return\<close>

lemma run_iteration_grows:
  assumes "run_iteration F env rn cf st = (res, st')"
  shows "length (trace (world st)) < length (trace (world st'))"
proof -
  obtain r0 st1 where b: "ext env before_phase_RUN st = (r0, st1)"
    by (cases "ext env before_phase_RUN st")
  then have l1: "length (trace (world st1)) = Suc (length (trace (world st)))"
    by (auto simp: ext_def Let_def)
  have "frame st1 st'"
    using assms b unfolding run_iteration_def
    by (auto split: prod.splits option.splits
        dest!: framedD [OF framed_ext] run_try_body_frame framedD [OF framed_after_run]
        intro: frame_trans)
  then obtain es where "trace (world st') = trace (world st1) @ es"
    by (auto dest: frame_trace)
  with l1 show ?thesis by simp
qed

lemma run_loop_terminates:
  assumes "\<forall>t. N \<le> length t \<longrightarrow> d < time_time env t"
  shows "N - length (trace (world st)) < n \<Longrightarrow> run_loop n F env d rn cf st \<noteq> None"
proof (induction n arbitrary: rn cf st)
  case 0
  then show ?case by simp
next
  case (Suc n)
  obtain res st1 where it: "run_iteration F env rn cf st = (res, st1)"
    by (cases "run_iteration F env rn cf st")
  from run_iteration_grows [OF it] have g: "length (trace (world st)) < length (trace (world st1))" .
  show ?case
  proof (cases res)
    case (Raise e)
    with it show ?thesis by simp
  next
    case (Next cf')
    show ?thesis
    proof (cases "d < time_time env (trace (world st1))")
      case True
      with it Next show ?thesis by simp
    next
      case False
      with assms have "\<not> N \<le> length (trace (world st1))" by blast
      with g Suc.prems have "N - length (trace (world st1)) < n" by simp
      from Suc.IH [OF this] it Next False show ?thesis by simp
    qed
  qed
qed

lemma DoRunPhase_terminates:
  assumes "clock_unbounded env"
  shows "\<exists>n. DoRunPhase n F env st \<noteq> None"
proof -
  from assms obtain N where
    "\<forall>t. N \<le> length t \<longrightarrow> time_time env (trace (world st)) + run_stage_time F < time_time env t"
    unfolding clock_unbounded_def by blast
  from run_loop_terminates [OF this, of st "Suc N" F 0 0] show ?thesis
    unfolding DoRunPhase_def by (auto intro: exI [of _ "Suc N"])
qed

lemma run_loop_mono:
  "run_loop n F env d rn cf st = Some x \<Longrightarrow> n \<le> m \<Longrightarrow> run_loop m F env d rn cf st = Some x"
proof (induction n arbitrary: m rn cf st)
  case 0
  then show ?case by simp
next
  case (Suc n)
  then obtain m' where m: "m = Suc m'" "n \<le> m'" by (cases m) auto
  obtain res st1 where it: "run_iteration F env rn cf st = (res, st1)"
    by (cases "run_iteration F env rn cf st")
  show ?case
  proof (cases res)
    case (Raise e)
    with Suc.prems it m show ?thesis by simp
  next
    case (Next cf')
    show ?thesis
    proof (cases "d < time_time env (trace (world st1))")
      case True
      with Suc.prems it Next m show ?thesis by simp
    next
      case False
      with Suc.prems it Next have "run_loop n F env d (rn + 1) cf' st1 = Some x" by simp
      from Suc.IH [OF this m(2)] it Next False m show ?thesis by simp
    qed
  qed
qed

lemma requested_mono:
  "requested n F env s st = Some x \<Longrightarrow> n \<le> m \<Longrightarrow> requested m F env s st = Some x"
  by (cases s) (auto simp: requested_def DoRunPhase_def dest: run_loop_mono split: if_splits)

lemma requested_indep:
  "s \<noteq> RUN \<Longrightarrow> requested n F env s = requested 0 F env s"
  by (rule ext, cases s) (simp_all add: requested_def)

lemma requested_not_None:
  "s \<noteq> RUN \<Longrightarrow> requested n F env s st \<noteq> None"
  by (cases s) (simp_all add: requested_def)

lemma RunBenchmark_try_shape:
  "RunBenchmark_try n F env =
     seq_o (requested 0 F env PROVISION)
    (seq_o (requested 0 F env PREPARE)
    (seq_o (requested n F env RUN)
    (seq_o (requested 0 F env CLEANUP)
    (seq_o (requested 0 F env TEARDOWN)
           (\<lambda>st. Some (add_timing_samples F env st))))))"
  unfolding RunBenchmark_try_def
  by (simp only: requested_indep [of PROVISION n] requested_indep [of PREPARE n]
      requested_indep [of CLEANUP n] requested_indep [of TEARDOWN n] stage.distinct
      not_False_eq_True simp_thms)

lemma shape_mono:
  assumes "\<And>st x. r n st = Some x \<Longrightarrow> r m st = Some x"
    and "seq_o A (seq_o B (seq_o (r n) C)) st = Some x"
  shows "seq_o A (seq_o B (seq_o (r m) C)) st = Some x"
  using assms(2) unfolding seq_o_def
  by (auto split: option.splits prod.splits dest: assms(1))

lemma shape_total:
  assumes A: "\<And>st. A st \<noteq> None" and B: "\<And>st. B st \<noteq> None" and C: "\<And>st. C st \<noteq> None"
    and r: "\<And>st. \<exists>n. r n st \<noteq> None"
  shows "\<exists>n. seq_o A (seq_o B (seq_o (r n) C)) st \<noteq> None"
proof -
  obtain a st1 where 1: "A st = Some (a, st1)" using A [of st] by auto
  obtain b st2 where 2: "B st1 = Some (b, st2)" using B [of st1] by auto
  obtain n c st3 where 3: "r n st2 = Some (c, st3)" using r [of st2] by auto
  obtain y where 4: "C st3 = Some y" using C [of st3] by auto
  from 1 2 3 4 have "seq_o A (seq_o B (seq_o (r n) C)) st \<noteq> None"
    by (auto simp: seq_o_def split: option.splits)
  then show ?thesis ..
qed

lemma RunBenchmark_try_mono:
  assumes "RunBenchmark_try n F env st = Some x" and "n \<le> m"
  shows "RunBenchmark_try m F env st = Some x"
  using assms(1) unfolding RunBenchmark_try_shape
  by (rule shape_mono [where r = "\<lambda>n. requested n F env RUN", rotated])
    (rule requested_mono [OF _ assms(2)])

lemma RunBenchmark_mono:
  assumes "RunBenchmark n FLAGS env st = Some x" and "n \<le> m"
  shows "RunBenchmark m FLAGS env st = Some x"
proof -
  from assms(1) obtain y where
    "RunBenchmark_try n (redirected FLAGS env (mark_failed st)) env (mark_failed st) = Some y"
    unfolding RunBenchmark_def RunBenchmark_try_except_def Let_def
    by (auto split: option.splits)
  from this RunBenchmark_try_mono [OF this assms(2)] assms(1) show ?thesis
    unfolding RunBenchmark_def RunBenchmark_try_except_def Let_def by simp
qed

lemma RunBenchmarkTask_mono:
  assumes "RunBenchmarkTask n FLAGS env s w = Some x" and "n \<le> m"
  shows "RunBenchmarkTask m FLAGS env s w = Some x"
proof (cases "TEARDOWN_EVENT w")
  case True
  with assms show ?thesis by (simp add: RunBenchmarkTask_def)
next
  case False
  with assms(1) obtain y where
    "RunBenchmark n FLAGS env \<lparr>spec = task_spec FLAGS s, samples = [], world = w\<rparr> = Some y"
    unfolding RunBenchmarkTask_def by (auto split: option.splits)
  from this RunBenchmark_mono [OF this assms(2)] assms(1) False show ?thesis
    unfolding RunBenchmarkTask_def by simp
qed

lemma requested_total:
  assumes "clock_unbounded env"
  shows "\<exists>n. requested n F env s st \<noteq> None"
  using DoRunPhase_terminates [OF assms, of F st]
  by (cases s) (auto simp: requested_def)

lemma RunBenchmark_try_terminates:
  assumes "clock_unbounded env"
  shows "\<exists>n. RunBenchmark_try n F env st \<noteq> None"
proof -
  have C: "seq_o (requested 0 F env CLEANUP)
            (seq_o (requested 0 F env TEARDOWN)
                   (\<lambda>st. Some (add_timing_samples F env st))) st \<noteq> None" for st
    using requested_not_None [of CLEANUP 0 F env st]
    by (auto simp: seq_o_def split: option.splits prod.splits
        dest: requested_not_None [of TEARDOWN 0 F env, THEN notE, rotated])
  have A: "requested 0 F env PROVISION st \<noteq> None"
    and B: "requested 0 F env PREPARE st \<noteq> None" for st
    by (simp_all add: requested_not_None)
  have r: "\<exists>n. requested n F env RUN st \<noteq> None" for st
    by (rule requested_total [OF assms])
  show ?thesis
    unfolding RunBenchmark_try_shape
    by (rule shape_total [where r = "\<lambda>n. requested n F env RUN", OF A B C r])
qed

lemma RunBenchmark_terminates:
  assumes "clock_unbounded env"
  shows "\<exists>n. RunBenchmark n FLAGS env st \<noteq> None"
proof -
  from RunBenchmark_try_terminates [OF assms] obtain n where
    "RunBenchmark_try n (redirected FLAGS env (mark_failed st)) env (mark_failed st) \<noteq> None"
    by blast
  then have "RunBenchmark n FLAGS env st \<noteq> None"
    unfolding RunBenchmark_def RunBenchmark_try_except_def Let_def
    by (auto split: option.splits prod.splits)
  then show ?thesis ..
qed

lemma clock_unbounded_quiet:
  "clock_unbounded (quiet_env\<lparr>outcome := f\<rparr>)"
  unfolding clock_unbounded_def quiet_env_def
proof
  fix T :: int
  have "\<forall>t. nat (T + 1) \<le> length t \<longrightarrow> T < int (length t)" by auto
  then show "\<exists>N. \<forall>t. N \<le> length t \<longrightarrow>
      T < time_time (\<lparr>outcome = \<lambda>t ev. None, BenchmarkRun_samples = \<lambda>t u. [example_sample],
        GetTimeToBoot_samples = \<lambda>t u. [], Provision_resources = \<lambda>t u. [''vm-0''],
        time_time = \<lambda>t. int (length t), end_to_end_timer_samples = \<lambda>t u. [],
        detailed_timer_samples = \<lambda>t u. [], RedirectGlobalFlags = \<lambda>s F. F,
        completion_order = \<lambda>ss. ss\<rparr>\<lparr>outcome := f\<rparr>) t"
    by auto
qed

text \<open>
  C10. A task never raises: whatever \<^verbatim>\<open>RunBenchmark\<close> raised, a keyboard interrupt
  included, the task returns the spec and the samples collected, as
  \<^verbatim>\<open>RunBenchmark\<close> left them. And the task does return, with one and the same result
  for every large enough supply of iterations, provided the clock passes every bound, so
  that the loop of the run phase ends.
\<close>

theorem task_never_raises:
  "(\<forall>n res w'. RunBenchmarkTask n FLAGS env s w = Some (res, w') \<longrightarrow> (\<exists>s' xs. res = Inr (s', xs))) \<and>
   (\<forall>n r st. \<not> TEARDOWN_EVENT w \<and>
        RunBenchmark n FLAGS env \<lparr>spec = task_spec FLAGS s, samples = [], world = w\<rparr> = Some (r, st)
        \<longrightarrow> (\<exists>w'. RunBenchmarkTask n FLAGS env s w = Some (Inr (spec st, samples st), w'))) \<and>
   (clock_unbounded env \<longrightarrow>
      (\<exists>n0 s' xs w'. \<forall>n. n0 \<le> n \<longrightarrow> RunBenchmarkTask n FLAGS env s w = Some (Inr (s', xs), w')))"
proof (intro conjI allI impI)
  fix n res w' assume "RunBenchmarkTask n FLAGS env s w = Some (res, w')"
  then show "\<exists>s' xs. res = Inr (s', xs)" by (rule RunBenchmarkTask_Inr)
next
  fix n r st
  assume "\<not> TEARDOWN_EVENT w \<and>
        RunBenchmark n FLAGS env \<lparr>spec = task_spec FLAGS s, samples = [], world = w\<rparr> = Some (r, st)"
  then show "\<exists>w'. RunBenchmarkTask n FLAGS env s w = Some (Inr (spec st, samples st), w')"
    by (simp add: RunBenchmarkTask_def Let_def)
next
  assume clock: "clock_unbounded env"
  have "\<exists>n0. RunBenchmarkTask n0 FLAGS env s w \<noteq> None"
  proof (cases "TEARDOWN_EVENT w")
    case True
    then show ?thesis by (simp add: RunBenchmarkTask_def)
  next
    case False
    from RunBenchmark_terminates [OF clock] obtain n0 where
      "RunBenchmark n0 FLAGS env \<lparr>spec = task_spec FLAGS s, samples = [], world = w\<rparr> \<noteq> None"
      by blast
    with False have "RunBenchmarkTask n0 FLAGS env s w \<noteq> None"
      by (auto simp: RunBenchmarkTask_def Let_def)
    then show ?thesis ..
  qed
  then obtain n0 res w' where t: "RunBenchmarkTask n0 FLAGS env s w = Some (res, w')"
    by auto
  from RunBenchmarkTask_Inr [OF t] obtain s' xs where "res = Inr (s', xs)" by blast
  with t have "\<forall>n. n0 \<le> n \<longrightarrow> RunBenchmarkTask n FLAGS env s w = Some (Inr (s', xs), w')"
    by (auto intro: RunBenchmarkTask_mono)
  then show "\<exists>n0 s' xs w'. \<forall>n. n0 \<le> n \<longrightarrow> RunBenchmarkTask n FLAGS env s w = Some (Inr (s', xs), w')"
    by blast
qed

lemma interrupted_run:
  "RunBenchmark 1 example_flags interrupt_env
     \<lparr>spec = task_spec example_flags example_spec, samples = [], world = example_world\<rparr>
   = Some (Some KeyboardInterrupt,
       snd (the (RunBenchmark 1 example_flags interrupt_env
         \<lparr>spec = task_spec example_flags example_spec, samples = [], world = example_world\<rparr>)))"
  by (simp add: example_defs pkb_defs interrupt_env_def task_spec_def)

theorem task_never_raises_witness:
  "clock_unbounded interrupt_env \<and>
   map_option fst (RunBenchmark 1 example_flags interrupt_env
     \<lparr>spec = task_spec example_flags example_spec, samples = [], world = example_world\<rparr>)
     = Some (Some KeyboardInterrupt) \<and>
   map_option (isl \<circ> fst) (RunBenchmarkTask 1 example_flags interrupt_env example_spec example_world)
     = Some False \<and>
   (\<exists>n0 s' xs w'. RunBenchmarkTask n0 example_flags interrupt_env example_spec example_world
      = Some (Inr (s', xs), w'))"
proof -
  have clock: "clock_unbounded interrupt_env"
    unfolding interrupt_env_def by (rule clock_unbounded_quiet)
  have fresh: "\<not> TEARDOWN_EVENT example_world"
    by (simp add: example_world_def)
  note t = task_never_raises [of example_flags interrupt_env example_spec example_world]
  have a: "map_option fst (RunBenchmark 1 example_flags interrupt_env
     \<lparr>spec = task_spec example_flags example_spec, samples = [], world = example_world\<rparr>)
     = Some (Some KeyboardInterrupt)"
    by (simp add: example_defs pkb_defs interrupt_env_def task_spec_def)
  from t fresh interrupted_run obtain w' where
    "RunBenchmarkTask 1 example_flags interrupt_env example_spec example_world
       = Some (Inr (spec (snd (the (RunBenchmark 1 example_flags interrupt_env
           \<lparr>spec = task_spec example_flags example_spec, samples = [], world = example_world\<rparr>))),
         samples (snd (the (RunBenchmark 1 example_flags interrupt_env
           \<lparr>spec = task_spec example_flags example_spec, samples = [], world = example_world\<rparr>)))), w')"
    by blast
  then have b: "map_option (isl \<circ> fst)
      (RunBenchmarkTask 1 example_flags interrupt_env example_spec example_world) = Some False"
    by (simp only: option.map comp_apply fst_conv sum.disc)
  from t clock have
    "\<exists>n0 s' xs w'. \<forall>n. n0 \<le> n \<longrightarrow>
       RunBenchmarkTask n example_flags interrupt_env example_spec example_world = Some (Inr (s', xs), w')"
    by blast
  then have c: "\<exists>n0 s' xs w'. RunBenchmarkTask n0 example_flags interrupt_env example_spec example_world
      = Some (Inr (s', xs), w')"
    by blast
  from clock a b c show ?thesis by (intro conjI)
qed

section \<open>The exit status of a batch\<close>

lemma RunBenchmarkTask_uid:
  assumes "RunBenchmarkTask n FLAGS env s w = Some (Inr (s', xs), w')"
  shows "uid s' = uid s"
proof (cases "TEARDOWN_EVENT w")
  case True
  with assms show ?thesis by (simp add: RunBenchmarkTask_def)
next
  case False
  with assms obtain r st where
    run: "RunBenchmark n FLAGS env \<lparr>spec = task_spec FLAGS s, samples = [], world = w\<rparr> = Some (r, st)"
    and s': "s' = spec st"
    by (auto simp: RunBenchmarkTask_def Let_def split: option.splits)
  from RunBenchmark_frame [OF run] have "uid (spec st) = uid (task_spec FLAGS s)"
    by (auto dest: frame_uid)
  with s' show ?thesis by (simp add: task_spec_def)
qed

lemma RunBenchmarkTask_terminates:
  assumes "clock_unbounded env"
  shows "\<exists>n s' xs w'. RunBenchmarkTask n FLAGS env s w = Some (Inr (s', xs), w')"
proof -
  from RunBenchmark_terminates [OF assms] obtain n where
    "RunBenchmark n FLAGS env \<lparr>spec = task_spec FLAGS s, samples = [], world = w\<rparr> \<noteq> None"
    by blast
  then have "RunBenchmarkTask n FLAGS env s w \<noteq> None"
    by (auto simp: RunBenchmarkTask_def Let_def split: prod.splits)
  then obtain res w' where x: "RunBenchmarkTask n FLAGS env s w = Some (res, w')"
    by fastforce
  from RunBenchmarkTask_Inr [OF x] x show ?thesis by blast
qed

lemma run_tasks_mono:
  "run_tasks n FLAGS env ss w = Some x \<Longrightarrow> n \<le> m \<Longrightarrow> run_tasks m FLAGS env ss w = Some x"
proof (induction ss arbitrary: w x)
  case Nil
  then show ?case by simp
next
  case (Cons s ss)
  from Cons.prems(1) obtain y where t: "RunBenchmarkTask n FLAGS env s w = Some y"
    by (auto split: option.splits)
  from RunBenchmarkTask_mono [OF t Cons.prems(2)]
  have t': "RunBenchmarkTask m FLAGS env s w = Some y" .
  obtain r w1 where y: "y = (r, w1)" by (cases y)
  show ?case
  proof (cases r)
    case (Inl e)
    with t t' y Cons.prems(1) show ?thesis by simp
  next
    case (Inr p)
    with t y Cons.prems(1) obtain z where rest: "run_tasks n FLAGS env ss w1 = Some z"
      by (auto split: option.splits)
    from Cons.IH [OF rest Cons.prems(2)] rest t t' y Inr Cons.prems(1) show ?thesis by simp
  qed
qed

lemma run_tasks_terminates:
  assumes "clock_unbounded env"
  shows "\<exists>n tuples w'. run_tasks n FLAGS env ss w = Some (Inr tuples, w')"
proof (induction ss arbitrary: w)
  case Nil
  show ?case by simp
next
  case (Cons s ss)
  from RunBenchmarkTask_terminates [OF assms] obtain n1 s' xs w1 where
    t: "RunBenchmarkTask n1 FLAGS env s w = Some (Inr (s', xs), w1)"
    by blast
  from Cons.IH obtain n2 tuples w2 where
    rest: "run_tasks n2 FLAGS env ss w1 = Some (Inr tuples, w2)"
    by blast
  from RunBenchmarkTask_mono [OF t, of "max n1 n2"] run_tasks_mono [OF rest, of "max n1 n2"]
  have "run_tasks (max n1 n2) FLAGS env (s # ss) w = Some (Inr ((s', xs) # tuples), w2)"
    by simp
  then show ?case by blast
qed

lemma run_tasks_uids:
  "run_tasks n FLAGS env ss w = Some (Inr tuples, w')
    \<Longrightarrow> map (uid \<circ> fst) tuples = map uid ss"
proof (induction ss arbitrary: w tuples)
  case Nil
  then show ?case by simp
next
  case (Cons s ss)
  from Cons.prems obtain p w1 ps where
    t: "RunBenchmarkTask n FLAGS env s w = Some (Inr p, w1)"
    and rest: "run_tasks n FLAGS env ss w1 = Some (Inr ps, w')"
    and tuples: "tuples = p # ps"
    by (auto split: option.splits sum.splits prod.splits)
  from t have "uid (fst p) = uid s"
    by (cases p) (auto dest: RunBenchmarkTask_uid)
  with Cons.IH [OF rest] tuples show ?case by simp
qed

lemma RunParallelProcesses_uids:
  assumes "RunParallelProcesses n FLAGS env ss w = Some (Inr tuples, w')"
    and "mset (completion_order env ss) = mset ss"
  shows "mset (map (uid \<circ> fst) tuples) = mset (map uid ss)"
proof -
  from assms(1) have "map (uid \<circ> fst) tuples = map uid (completion_order env ss)"
    unfolding RunParallelProcesses_def by (rule run_tasks_uids)
  then have "mset (map (uid \<circ> fst) tuples) = image_mset uid (mset (completion_order env ss))"
    by simp
  with assms(2) show ?thesis by simp
qed

lemma RunBenchmarks_status:
  assumes "RunBenchmarks n FLAGS env benchmark_specs w = Some (Inr code, w')"
  shows "\<exists>tuples w1.
           RunParallelProcesses n FLAGS env benchmark_specs w = Some (Inr tuples, w1) \<and>
           code = exit_status (map fst tuples)"
  using assms unfolding RunBenchmarks_def Let_def
  by (auto split: option.splits sum.splits prod.splits if_splits)

lemma RunBenchmarks_returns:
  assumes pool: "RunParallelProcesses n FLAGS env benchmark_specs w = Some (Inr tuples, w1)"
    and tuples: "tuples \<noteq> []"
    and calls: "\<forall>t c. outcome env t ([], c) = None"
  shows "\<exists>w'. RunBenchmarks n FLAGS env benchmark_specs w = Some (Inr (exit_status (map fst tuples)), w')"
  using assms unfolding RunBenchmarks_def Let_def
  by (simp add: ext_batch_def split: prod.splits)

lemma exit_status_iff:
  "(exit_status (map fst tuples) = 0 \<longleftrightarrow> (\<forall>p \<in> set tuples. status (fst p) = SUCCEEDED)) \<and>
   (exit_status (map fst tuples) = 1 \<longleftrightarrow> (\<exists>p \<in> set tuples. status (fst p) \<noteq> SUCCEEDED))"
  by (auto simp: exit_status_def list_all_iff)

lemma RunBenchmarks_mono:
  assumes "RunBenchmarks n FLAGS env benchmark_specs w = Some x" and "n \<le> m"
  shows "RunBenchmarks m FLAGS env benchmark_specs w = Some x"
proof -
  from assms(1) obtain y where
    "RunParallelProcesses n FLAGS env benchmark_specs w = Some y"
    unfolding RunBenchmarks_def by (auto split: option.splits)
  from this run_tasks_mono [OF this [unfolded RunParallelProcesses_def] assms(2)] assms(1)
  show ?thesis
    unfolding RunBenchmarks_def RunParallelProcesses_def by simp
qed

lemma clock_unbounded_ticks:
  assumes "time_time env = (\<lambda>t. int (length t))"
  shows "clock_unbounded env"
  unfolding clock_unbounded_def
proof
  fix T :: int
  have "\<forall>t. nat (T + 1) \<le> length t \<longrightarrow> T < int (length t)" by auto
  with assms show "\<exists>N. \<forall>t. N \<le> length t \<longrightarrow> T < time_time env t" by auto
qed

text \<open>
  C6. Let the order in which the worker pool completes the tasks be a rearrangement of
  the batch. Then the pool delivers one result per spec of the batch, and:
  (a) Whenever \<^verbatim>\<open>RunBenchmarks\<close> returns an exit status, the status is 0 exactly when
  every spec in these results is marked succeeded, and it is 1 exactly when one of them
  has any other status, failed or never attempted.
  (b) \<^verbatim>\<open>RunBenchmarks\<close> does return an exit status when the batch is not empty, the
  clock passes every bound, and none of the calls made for the batch as a whole
  (publishing the samples, archiving the run) raises.
\<close>

theorem exit_status_of_batch:
  assumes order: "mset (completion_order env benchmark_specs) = mset benchmark_specs"
  shows "(\<forall>n code w'. RunBenchmarks n FLAGS env benchmark_specs w = Some (Inr code, w') \<longrightarrow>
            (\<exists>tuples w1.
               RunParallelProcesses n FLAGS env benchmark_specs w = Some (Inr tuples, w1) \<and>
               mset (map (uid \<circ> fst) tuples) = mset (map uid benchmark_specs) \<and>
               (code = 0 \<longleftrightarrow> (\<forall>p \<in> set tuples. status (fst p) = SUCCEEDED)) \<and>
               (code = 1 \<longleftrightarrow> (\<exists>p \<in> set tuples. status (fst p) \<noteq> SUCCEEDED)))) \<and>
         (benchmark_specs \<noteq> [] \<and> clock_unbounded env \<and> (\<forall>t c. outcome env t ([], c) = None) \<longrightarrow>
            (\<exists>n0 code w'. \<forall>n. n0 \<le> n \<longrightarrow>
               RunBenchmarks n FLAGS env benchmark_specs w = Some (Inr code, w')))"
proof (intro conjI allI impI)
  fix n code w'
  assume "RunBenchmarks n FLAGS env benchmark_specs w = Some (Inr code, w')"
  from RunBenchmarks_status [OF this] obtain tuples w1 where
    pool: "RunParallelProcesses n FLAGS env benchmark_specs w = Some (Inr tuples, w1)"
    and code: "code = exit_status (map fst tuples)"
    by blast
  from pool RunParallelProcesses_uids [OF pool order] code exit_status_iff [of tuples]
  show "\<exists>tuples w1.
               RunParallelProcesses n FLAGS env benchmark_specs w = Some (Inr tuples, w1) \<and>
               mset (map (uid \<circ> fst) tuples) = mset (map uid benchmark_specs) \<and>
               (code = 0 \<longleftrightarrow> (\<forall>p \<in> set tuples. status (fst p) = SUCCEEDED)) \<and>
               (code = 1 \<longleftrightarrow> (\<exists>p \<in> set tuples. status (fst p) \<noteq> SUCCEEDED))"
    by blast
next
  assume a: "benchmark_specs \<noteq> [] \<and> clock_unbounded env \<and> (\<forall>t c. outcome env t ([], c) = None)"
  from a run_tasks_terminates [of env FLAGS "completion_order env benchmark_specs" w]
  obtain n0 tuples w1 where
    pool: "RunParallelProcesses n0 FLAGS env benchmark_specs w = Some (Inr tuples, w1)"
    unfolding RunParallelProcesses_def by blast
  from RunParallelProcesses_uids [OF pool order] a have "tuples \<noteq> []"
    by auto
  from RunBenchmarks_returns [OF pool this] a obtain w' where
    r: "RunBenchmarks n0 FLAGS env benchmark_specs w = Some (Inr (exit_status (map fst tuples)), w')"
    by blast
  have "\<forall>n. n0 \<le> n \<longrightarrow>
      RunBenchmarks n FLAGS env benchmark_specs w = Some (Inr (exit_status (map fst tuples)), w')"
    using RunBenchmarks_mono [OF r] by blast
  then show "\<exists>n0 code w'. \<forall>n. n0 \<le> n \<longrightarrow>
               RunBenchmarks n FLAGS env benchmark_specs w = Some (Inr code, w')"
    by blast
qed

lemma batch_runs:
  "map_option fst (RunBenchmarks 1 example_flags reversed_pool_env [example_spec, second_spec] example_world)
     = Some (Inr 0)"
  "map_option (map (\<lambda>p. (uid (fst p), status (fst p))) \<circ> projr \<circ> fst)
     (RunParallelProcesses 1 example_flags reversed_pool_env [example_spec, second_spec] example_world)
     = Some [(''fio0'', SUCCEEDED), (''iperf0'', SUCCEEDED)]"
  "map_option fst (RunBenchmarks 1 example_flags fio_fails_env [example_spec, second_spec] example_world)
     = Some (Inr 1)"
  "map_option (map (\<lambda>p. (uid (fst p), status (fst p))) \<circ> projr \<circ> fst)
     (RunParallelProcesses 1 example_flags fio_fails_env [example_spec, second_spec] example_world)
     = Some [(''iperf0'', SUCCEEDED), (''fio0'', FAILED)]"
  "map_option fst (RunBenchmarks 1 stop_flags fio_fails_env [second_spec, example_spec] example_world)
     = Some (Inr 1)"
  "map_option (map (\<lambda>p. (uid (fst p), status (fst p))) \<circ> projr \<circ> fst)
     (RunParallelProcesses 1 stop_flags fio_fails_env [second_spec, example_spec] example_world)
     = Some [(''fio0'', FAILED), (''iperf0'', NOT_STARTED)]"
  by (simp_all add: example_defs pkb_defs fio_fails_env_def reversed_pool_env_def stop_flags_def
      second_spec_def task_spec_def RunBenchmarks_def RunParallelProcesses_def RunBenchmarkTask_def
      exit_status_def ext_batch_def)

theorem exit_status_of_batch_witness:
  "clock_unbounded reversed_pool_env \<and>
   completion_order reversed_pool_env [example_spec, second_spec] = [second_spec, example_spec] \<and>
   map_option (map (\<lambda>p. (uid (fst p), status (fst p))) \<circ> projr \<circ> fst)
     (RunParallelProcesses 1 example_flags reversed_pool_env [example_spec, second_spec] example_world)
     = Some [(''fio0'', SUCCEEDED), (''iperf0'', SUCCEEDED)] \<and>
   (\<exists>n0 w'. \<forall>n. n0 \<le> n \<longrightarrow>
      RunBenchmarks n example_flags reversed_pool_env [example_spec, second_spec] example_world
        = Some (Inr 0, w')) \<and>
   (\<exists>tuples w1.
      RunParallelProcesses 1 example_flags reversed_pool_env [example_spec, second_spec] example_world
        = Some (Inr tuples, w1) \<and>
      mset (map (uid \<circ> fst) tuples) = mset [''iperf0'', ''fio0''] \<and>
      list_all (\<lambda>p. status (fst p) = SUCCEEDED) tuples) \<and>
   map_option (map (\<lambda>p. (uid (fst p), status (fst p))) \<circ> projr \<circ> fst)
     (RunParallelProcesses 1 example_flags fio_fails_env [example_spec, second_spec] example_world)
     = Some [(''iperf0'', SUCCEEDED), (''fio0'', FAILED)] \<and>
   (\<exists>n0 w'. \<forall>n. n0 \<le> n \<longrightarrow>
      RunBenchmarks n example_flags fio_fails_env [example_spec, second_spec] example_world
        = Some (Inr 1, w')) \<and>
   map_option (map (\<lambda>p. (uid (fst p), status (fst p))) \<circ> projr \<circ> fst)
     (RunParallelProcesses 1 stop_flags fio_fails_env [second_spec, example_spec] example_world)
     = Some [(''fio0'', FAILED), (''iperf0'', NOT_STARTED)] \<and>
   (\<exists>n0 w'. \<forall>n. n0 \<le> n \<longrightarrow>
      RunBenchmarks n stop_flags fio_fails_env [second_spec, example_spec] example_world
        = Some (Inr 1, w'))"
proof -
  have clock1: "clock_unbounded reversed_pool_env"
    and clock2: "clock_unbounded fio_fails_env"
    by (rule clock_unbounded_ticks, simp add: reversed_pool_env_def fio_fails_env_def quiet_env_def)+
  have rev: "completion_order reversed_pool_env [example_spec, second_spec] = [second_spec, example_spec]"
    by (simp add: reversed_pool_env_def)
  then have order1: "mset (completion_order reversed_pool_env [example_spec, second_spec])
      = mset [example_spec, second_spec]"
    by (simp add: add_mset_commute)
  have order2: "mset (completion_order fio_fails_env [example_spec, second_spec])
      = mset [example_spec, second_spec]"
    and order3: "mset (completion_order fio_fails_env [second_spec, example_spec])
      = mset [second_spec, example_spec]"
    by (simp_all add: fio_fails_env_def quiet_env_def)
  have calls1: "\<forall>t c. outcome reversed_pool_env t ([], c) = None"
    and calls2: "\<forall>t c. outcome fio_fails_env t ([], c) = None"
    by (simp_all add: reversed_pool_env_def fio_fails_env_def quiet_env_def)
  have total: "\<exists>n0 w'. \<forall>n. n0 \<le> n \<longrightarrow> RunBenchmarks n F env ss example_world = Some (Inr c, w')"
    if order: "mset (completion_order env ss) = mset ss" and ne: "ss \<noteq> []"
      and clock: "clock_unbounded env" and calls: "\<forall>t c. outcome env t ([], c) = None"
      and run: "map_option fst (RunBenchmarks 1 F env ss example_world) = Some (Inr c)"
    for F env ss c
  proof -
    from exit_status_of_batch [OF order, of F example_world, THEN conjunct2, rule_format,
        OF conjI [OF ne conjI [OF clock calls]]]
    obtain n0 code w' where
      all: "\<forall>n. n0 \<le> n \<longrightarrow> RunBenchmarks n F env ss example_world = Some (Inr code, w')"
      by blast
    from run obtain w0 where r1: "RunBenchmarks 1 F env ss example_world = Some (Inr c, w0)"
      by fastforce
    from RunBenchmarks_mono [OF r1, of "max 1 n0"] all have "code = c" by simp
    with all show ?thesis by blast
  qed
  from batch_runs(1) obtain w0 where
    "RunBenchmarks 1 example_flags reversed_pool_env [example_spec, second_spec] example_world
       = Some (Inr 0, w0)"
    by fastforce
  from exit_status_of_batch [OF order1, of example_flags example_world, THEN conjunct1,
      rule_format, OF this]
  have results: "\<exists>tuples w1.
      RunParallelProcesses 1 example_flags reversed_pool_env [example_spec, second_spec] example_world
        = Some (Inr tuples, w1) \<and>
      mset (map (uid \<circ> fst) tuples) = mset [''iperf0'', ''fio0''] \<and>
      list_all (\<lambda>p. status (fst p) = SUCCEEDED) tuples"
    by (auto simp: list_all_iff example_spec_def second_spec_def)
  from total [OF order1 _ clock1 calls1 batch_runs(1)]
    total [OF order2 _ clock2 calls2 batch_runs(3)]
    total [OF order3 _ clock2 calls2 batch_runs(5)]
    clock1 rev batch_runs(2,4,6) results
  show ?thesis by simp
qed

end
